theory Spec2Isabelle
  imports Complex_Main "HOL-Library.Sublist"
begin

section \<open>The kNN classifier's coordinator (\<^verbatim>\<open>classifier.c\<close>)\<close>

text \<open>
  \<^verbatim>\<open>main\<close> of \<^verbatim>\<open>classifier.c\<close> parses the command line, selects the distance function,
  loads the two data sets, forks \<^verbatim>\<open>num_procs\<close> children that each run
  \<^verbatim>\<open>child_handler\<close>, hands every child a slice \<open>(start_idx, N)\<close> of the test set
  through a pipe, waits for the children, reads one integer back from every pipe and
  prints the sum.

  The embedding keeps the order of the source.  C \<^verbatim>\<open>int\<close> values are HOL integers: for
  a test set of \<open>n \<ge> 0\<close> items every value the partitioning loop computes lies between
  \<open>0\<close> and \<open>n\<close> (lemma \<open>distribute_counts\<close>), so no 32-bit operation wraps there.
  Where a value can leave the range of \<^verbatim>\<open>int\<close> (the result of \<^verbatim>\<open>atoi\<close>, the running
  total), the reduction to 32 bits is written out (\<open>int_cast\<close>).
  What the process does to the outside world is recorded as a trace of events; what the
  outside world answers (which system call fails, what the loader returns, what a child
  leaves in its pipe) is a parameter, the \<open>environment\<close>.
\<close>

subsection \<open>Partitioning the test set (lines 172--196)\<close>

type_synonym slice = "int \<times> int"
  \<comment> \<open>\<open>(start_idx, N)\<close>: the two integers written to a child's pipe\<close>

text \<open>
  \<^verbatim>\<open>int N = ceil((testing->num_items / 1.0) / num_procs);\<close>
  The division is the exact one on the reals.  For 32-bit operands the rounded
  \<^verbatim>\<open>double\<close> quotient has the same ceiling as the exact quotient: a quotient that is
  not an integer is at least \<open>1 / num_procs\<close> away from the next one, far more than the
  rounding error of a \<^verbatim>\<open>double\<close>.
\<close>

definition initial_N :: "int \<Rightarrow> int \<Rightarrow> int" where
  "initial_N n p = \<lceil>(real_of_int n / 1.0) / real_of_int p\<rceil>"

text \<open>
  \<^verbatim>\<open>if((testing->num_items - cur_start) < N){ N = testing->num_items - cur_start; }\<close>
\<close>

definition adjust_N :: "int \<Rightarrow> int \<Rightarrow> int \<Rightarrow> int" where
  "adjust_N n cur_start N = (if n - cur_start < N then n - cur_start else N)"

text \<open>
  The values of \<open>(cur_start, N)\<close> that the loop writes, for the \<open>k\<close> iterations that
  remain: \<open>N\<close> is adjusted, the pair is written, \<^verbatim>\<open>cur_start += N\<close>.
\<close>

fun distribute :: "int \<Rightarrow> nat \<Rightarrow> int \<Rightarrow> int \<Rightarrow> slice list" where
  "distribute n 0 N cur_start = []"
| "distribute n (Suc k) N cur_start =
     (let N' = adjust_N n cur_start N
      in (cur_start, N') # distribute n k N' (cur_start + N'))"

text \<open>The slices for a test set of \<open>n\<close> items and \<open>p\<close> children, in worker order.\<close>

definition partition_slices :: "int \<Rightarrow> int \<Rightarrow> slice list" where
  "partition_slices n p = distribute n (nat p) (initial_N n p) 0"

subsection \<open>C strings and the library functions \<^verbatim>\<open>main\<close> calls\<close>

text \<open>
  A C string is the list of its characters before the terminating NUL, so no element of
  the list is NUL.  \<^verbatim>\<open>strncmp\<close> compares at most \<open>n\<close> characters and stops at the end of
  either string; only the sign of its result is defined, and \<^verbatim>\<open>main\<close> only tests
  it against zero.
\<close>

definition strlen :: "string \<Rightarrow> nat" where
  "strlen s = length s"

fun strncmp :: "string \<Rightarrow> string \<Rightarrow> nat \<Rightarrow> int" where
  "strncmp s1 s2 0 = 0"
| "strncmp [] [] (Suc n) = 0"
| "strncmp [] (c2 # s2) (Suc n) = - 1"
| "strncmp (c1 # s1) [] (Suc n) = 1"
| "strncmp (c1 # s1) (c2 # s2) (Suc n) =
     (if c1 = c2 then strncmp s1 s2 n
      else if (of_char c1 :: nat) < of_char c2 then - 1 else 1)"

text \<open>
  \<^verbatim>\<open>atoi\<close>: white space is skipped, one sign is read, then the decimal digits that
  follow; anything after them is ignored and no digit at all gives 0.  There is no error
  return.  The C library the program runs with computes \<^verbatim>\<open>(int) strtol(s, NULL, 10)\<close>:
  \<^verbatim>\<open>strtol\<close> yields the value as a 64-bit \<^verbatim>\<open>long\<close>, the nearest bound when it does
  not fit, and the conversion to \<^verbatim>\<open>int\<close> keeps the low 32 bits in two's complement.
\<close>

definition int_cast :: "int \<Rightarrow> int" where
  "int_cast v = (v + 2 ^ 31) mod 2 ^ 32 - 2 ^ 31"

definition isspace :: "char \<Rightarrow> bool" where
  "isspace c = (c = CHR '' '' \<or> (9 \<le> (of_char c :: nat) \<and> (of_char c :: nat) \<le> 13))"

definition isdigit :: "char \<Rightarrow> bool" where
  "isdigit c = (48 \<le> (of_char c :: nat) \<and> (of_char c :: nat) \<le> 57)"

fun digits :: "int \<Rightarrow> string \<Rightarrow> int" where
  "digits acc [] = acc"
| "digits acc (c # cs) =
     (if isdigit c then digits (10 * acc + (of_char c - 48)) cs else acc)"

text \<open>The number the string starts with, as written.\<close>

definition numeric_value :: "string \<Rightarrow> int" where
  "numeric_value s =
     (case dropWhile isspace s of
        [] \<Rightarrow> 0
      | c # cs \<Rightarrow>
          if c = CHR ''-'' then - digits 0 cs
          else if c = CHR ''+'' then digits 0 cs
          else digits 0 (c # cs))"

definition strtol :: "string \<Rightarrow> int" where
  "strtol s = max (- (2 ^ 63)) (min (2 ^ 63 - 1) (numeric_value s))"

definition atoi :: "string \<Rightarrow> int" where
  "atoi s = int_cast (strtol s)"


subsection \<open>Command line (lines 53--87)\<close>

record config =
  K :: int
  dist_metric :: string
  num_procs :: int
  verbose :: bool

definition defaults :: config where
  "defaults = \<lparr>K = 1, dist_metric = ''euclidean'', num_procs = 1, verbose = False\<rparr>"

text \<open>The \<^verbatim>\<open>switch\<close> cases of the options that take an argument.\<close>

definition switch_opt :: "char \<Rightarrow> string \<Rightarrow> config \<Rightarrow> config" where
  "switch_opt opt optarg cfg =
     (if opt = CHR ''K'' then cfg\<lparr>K := atoi optarg\<rparr>
      else if opt = CHR ''d'' then cfg\<lparr>dist_metric := optarg\<rparr>
      else cfg\<lparr>num_procs := atoi optarg\<rparr>)"

text \<open>
  \<^verbatim>\<open>while((opt = getopt(argc, argv, "vK:d:p:")) != -1) switch(opt) ...\<close>
  This is \<^verbatim>\<open>getopt\<close> of the GNU C library, with \<^verbatim>\<open>POSIXLY_CORRECT\<close> not set: it
  permutes \<open>argv\<close>, so an option is recognised wherever it stands, and the arguments
  that are no options end up behind the options, in their order.  The second argument of
  the loop collects these; the third is what is left of the option cluster being scanned
  (\<^verbatim>\<open>-vK3\<close> is \<^verbatim>\<open>-v -K 3\<close>), the fourth the arguments not looked at yet.  An
  argument of fewer than two characters or not starting with \<^verbatim>\<open>-\<close> is no option;
  \<^verbatim>\<open>--\<close> ends the scan and everything after it is no option; an option that takes
  an argument takes the rest of its cluster or else the next argument, whatever it is.
  The result is the configuration and the arguments from \<^verbatim>\<open>optind\<close> on; \<open>None\<close> is the
  \<^verbatim>\<open>default\<close> case (an unknown option, or a missing option argument), where
  \<^verbatim>\<open>main\<close> prints the usage line and exits with status 1.
\<close>

fun getopt_loop ::
  "config \<Rightarrow> string list \<Rightarrow> string \<Rightarrow> string list \<Rightarrow> (config \<times> string list) option" where
  "getopt_loop cfg nonopts [] [] = Some (cfg, nonopts)"
| "getopt_loop cfg nonopts [] (a # rest) =
     (if a = ''--'' then Some (cfg, nonopts @ rest)
      else if 2 \<le> length a \<and> hd a = CHR ''-'' then getopt_loop cfg nonopts (tl a) rest
      else getopt_loop cfg (nonopts @ [a]) [] rest)"
| "getopt_loop cfg nonopts (opt # cs) rest =
     (if opt = CHR ''v'' then getopt_loop (cfg\<lparr>verbose := True\<rparr>) nonopts cs rest
      else if opt = CHR ''K'' \<or> opt = CHR ''d'' \<or> opt = CHR ''p'' then
        (if cs \<noteq> [] then getopt_loop (switch_opt opt cs cfg) nonopts [] rest
         else case rest of
                [] \<Rightarrow> None
              | optarg # rest' \<Rightarrow> getopt_loop (switch_opt opt optarg cfg) nonopts [] rest')
      else None)"

text \<open>\<^verbatim>\<open>argv[i]\<close>; the element after the last one is the null pointer.\<close>

definition argv_at :: "string list \<Rightarrow> nat \<Rightarrow> string option" where
  "argv_at argv i = (if i < length argv then Some (argv ! i) else None)"

subsection \<open>Distance function (lines 99--111)\<close>

datatype d_func = distance_euclidean | distance_cosine

definition select_metric :: "string \<Rightarrow> d_func option" where
  "select_metric dm =
     (if strncmp dm ''euclidean'' (strlen dm) = 0 then Some distance_euclidean
      else if strncmp dm ''cosine'' (strlen dm) = 0 then Some distance_cosine
      else None)"

subsection \<open>The outside world\<close>

text \<open>
  \<^verbatim>\<open>Dataset\<close> is declared in \<^verbatim>\<open>knn.h\<close>; \<^verbatim>\<open>main\<close> reads its field \<^verbatim>\<open>num_items\<close> only.
\<close>

record Dataset =
  num_items :: int

text \<open>
  Modelled from the spec: \<^verbatim>\<open>child_handler\<close> is defined in \<^verbatim>\<open>knn.c\<close>.  By the
  inter-worker protocol a worker reads \<open>start_idx\<close> and \<open>N\<close> from its pipe and writes
  one integer, its number of correct predictions, to the same pipe (\<^verbatim>\<open>main\<close> passes
  both ends of the one pipe \<^verbatim>\<open>fds[i]\<close>).  \<open>Reports c\<close> is a worker that does so;
  \<open>Dies r\<close> is a worker that terminates after reading \<open>r\<close> of the two integers and
  before writing anything.
\<close>

datatype worker_run = Reports int | Dies nat

text \<open>
  What pipe \<open>i\<close> holds once its child has terminated, given the slice the parent wrote
  to it: the pipe is a queue, and what the child did not read is still in it.
\<close>

fun pipe_after :: "worker_run \<Rightarrow> slice \<Rightarrow> int list" where
  "pipe_after (Reports c) (start_idx, N) = [c]"
| "pipe_after (Dies r) (start_idx, N) = drop r [start_idx, N]"

datatype syscall =
    Pipe nat
  | Fork nat
  | WriteStart nat int
  | WriteN nat int
  | CloseWrite nat
  | Wait nat
  | Read nat
  | CloseRead nat

datatype stream = Stdout | Stderr

datatype arg = IntArg int | StrArg "string option"

datatype event =
    Printf stream string "arg list"
  | Perror string
  | Load "string option"
  | Call syscall
  | Failed syscall

text \<open>
  \<open>load_dataset\<close> (of \<^verbatim>\<open>knn.c\<close>) returns a data set or the null pointer; \<open>fails\<close>
  says which system calls return an error; \<open>child_handler\<close> is what child \<open>i\<close> does when
  called with the two data sets, \<open>K\<close>, the distance function and its pipe, on which the
  given slice arrives; \<open>num_correct_init\<close> is the value of the uninitialised variable
  \<^verbatim>\<open>num_correct\<close>.
\<close>

record environment =
  load_dataset :: "string option \<Rightarrow> Dataset option"
  fails :: "syscall \<Rightarrow> bool"
  child_handler :: "Dataset \<Rightarrow> Dataset \<Rightarrow> int \<Rightarrow> d_func \<Rightarrow> nat \<Rightarrow> slice \<Rightarrow> worker_run"
  num_correct_init :: int

text \<open>
  A step of \<^verbatim>\<open>main\<close> yields the events it caused and either a value or \<open>None\<close>, when
  it ended in \<^verbatim>\<open>exit(1)\<close>.
\<close>

type_synonym 'a io = "event list \<times> 'a option"

definition io_bind :: "'a io \<Rightarrow> ('a \<Rightarrow> 'b io) \<Rightarrow> 'b io" where
  "io_bind m f =
     (case snd m of
        None \<Rightarrow> (fst m, None)
      | Some x \<Rightarrow> (fst m @ fst (f x), snd (f x)))"

definition io_seq :: "unit io \<Rightarrow> 'b io \<Rightarrow> 'b io" where
  "io_seq m m' = io_bind m (\<lambda>_. m')"

text \<open>A system call whose error branch is \<^verbatim>\<open>perror(msg); exit(1);\<close>.\<close>

definition sys :: "environment \<Rightarrow> syscall \<Rightarrow> string \<Rightarrow> unit io" where
  "sys env c msg =
     (if fails env c then ([Failed c, Perror msg], None) else ([Call c], Some ()))"

text \<open>An output statement, guarded (\<^verbatim>\<open>if(verbose)\<close>) or not.\<close>

definition say :: "bool \<Rightarrow> event \<Rightarrow> unit io" where
  "say cond e = ((if cond then [e] else []), Some ())"

subsection \<open>Loading, forking, distributing, collecting (lines 113--233)\<close>

definition load :: "environment \<Rightarrow> string option \<Rightarrow> Dataset io" where
  "load env file =
     (case load_dataset env file of
        None \<Rightarrow>
          ([Load file,
            Printf Stderr ''The data set in %s could not be loaded\<newline>'' [StrArg file]],
           None)
      | Some d \<Rightarrow> ([Load file], Some d))"

text \<open>
  Each loop is a recursion on the number \<open>k\<close> of iterations that remain, with the loop
  index \<open>i\<close> counting up.  In the child, \<^verbatim>\<open>fork\<close> is followed by \<^verbatim>\<open>child_handler\<close>
  and \<^verbatim>\<open>exit(0)\<close>; the trace is the parent's.
\<close>

fun create_children :: "environment \<Rightarrow> nat \<Rightarrow> nat \<Rightarrow> unit io" where
  "create_children env i 0 = ([], Some ())"
| "create_children env i (Suc k) =
     io_seq (sys env (Pipe i) ''Failed pipe'')
    (io_seq (sys env (Fork i) ''Failed forking child process'')
            (create_children env (Suc i) k))"

text \<open>The value of the loop is the list of the slices written, one per pipe.\<close>

fun distribute_loop ::
  "environment \<Rightarrow> int \<Rightarrow> nat \<Rightarrow> nat \<Rightarrow> int \<Rightarrow> int \<Rightarrow> slice list io" where
  "distribute_loop env n i 0 N cur_start = ([], Some [])"
| "distribute_loop env n i (Suc k) N cur_start =
     (let N' = adjust_N n cur_start N in
      io_seq (sys env (WriteStart i cur_start) ''Failed writing starting index to child'')
     (io_seq (sys env (WriteN i N') ''Failed writing N to child'')
     (io_seq (sys env (CloseWrite i) ''Closing parent write pipe'')
     (io_bind (distribute_loop env n (Suc i) k N' (cur_start + N'))
        (\<lambda>written. ([], Some ((cur_start, N') # written)))))))"

fun wait_loop :: "environment \<Rightarrow> nat \<Rightarrow> nat \<Rightarrow> unit io" where
  "wait_loop env i 0 = ([], Some ())"
| "wait_loop env i (Suc k) =
     io_seq (sys env (Wait i) ''failed wait call'') (wait_loop env (Suc i) k)"

text \<open>
  \<^verbatim>\<open>if(read(fds[i][0], &num_correct, sizeof(int)) < 0) ...; total_correct += num_correct;\<close>
  Only a negative result of \<^verbatim>\<open>read\<close> is an error.  On an empty pipe whose write ends
  are all closed \<^verbatim>\<open>read\<close> returns 0 and leaves \<^verbatim>\<open>num_correct\<close> as it was.  The sum
  is a C \<^verbatim>\<open>int\<close>: as compiled, it wraps around on 32 bits.
\<close>

fun read_loop ::
  "environment \<Rightarrow> (nat \<Rightarrow> int list) \<Rightarrow> nat \<Rightarrow> nat \<Rightarrow> int \<Rightarrow> int \<Rightarrow> int io" where
  "read_loop env pipes i 0 num_correct total_correct = ([], Some total_correct)"
| "read_loop env pipes i (Suc k) num_correct total_correct =
     io_seq (sys env (Read i) ''Failed reading result from child'')
       (let num_correct' = (case pipes i of [] \<Rightarrow> num_correct | v # _ \<Rightarrow> v);
            total_correct' = int_cast (total_correct + num_correct')
        in io_seq (sys env (CloseRead i) ''Closing parent read pipe'')
             (read_loop env pipes (Suc i) k num_correct' total_correct'))"

text \<open>
  Lines 130--233: everything after the data sets are loaded.  For \<^verbatim>\<open>num_procs\<close> not
  above 0 no loop body is executed, and \<open>N\<close> is not used; the array of pipes then has
  no element and the quotient is not finite, which the C standard leaves undefined;
  the model follows the compiled program, in which no loop body runs.
\<close>

definition coordinator ::
  "environment \<Rightarrow> config \<Rightarrow> d_func \<Rightarrow> Dataset \<Rightarrow> Dataset \<Rightarrow> int io" where
  "coordinator env cfg d training testing =
     io_seq (say (verbose cfg) (Printf Stdout ''- Creating children ...\<newline>'' []))
    (io_seq (create_children env 0 (nat (num_procs cfg)))
    (io_bind (distribute_loop env (num_items testing) 0 (nat (num_procs cfg))
                (initial_N (num_items testing) (num_procs cfg)) 0)
       (\<lambda>written.
     io_seq (say (verbose cfg) (Printf Stdout ''- Waiting for children...\<newline>'' []))
    (io_seq (wait_loop env 0 (nat (num_procs cfg)))
    (io_bind (read_loop env
                (\<lambda>i. pipe_after
                       (child_handler env training testing (K cfg) d i (written ! i))
                       (written ! i))
                0 (nat (num_procs cfg)) (num_correct_init env) 0)
       (\<lambda>total_correct.
     io_seq (say (verbose cfg)
               (Printf Stdout ''Number of correct predictions: %d\<newline>''
                  [IntArg total_correct]))
    (io_seq (say True (Printf Stdout ''%d\<newline>'' [IntArg total_correct]))
            ([], Some total_correct))))))))"

text \<open>Lines 113--128 and then the coordinator.\<close>

definition run ::
  "environment \<Rightarrow> config \<Rightarrow> d_func \<Rightarrow> string option \<Rightarrow> string option \<Rightarrow> int io" where
  "run env cfg d training_file testing_file =
     io_seq (say (verbose cfg) (Printf Stderr ''- Loading datasets...\<newline>'' []))
    (io_bind (load env training_file) (\<lambda>training.
     io_bind (load env testing_file) (\<lambda>testing.
     coordinator env cfg d training testing)))"

definition exit_status :: "int io \<Rightarrow> event list \<times> int" where
  "exit_status m = (case snd m of None \<Rightarrow> (fst m, 1) | Some total_correct \<Rightarrow> (fst m, 0))"

definition usage :: "string option \<Rightarrow> event" where
  "usage name =
     Printf Stderr
       ''Usage: %s -v -K <num> -d <distance metric> -p <num_procs> training_list testing_list\<newline>''
       [StrArg name]"

text \<open>
  \<^verbatim>\<open>main\<close>: the trace and the exit status.  \<open>argv\<close> starts with the program name.
\<close>

definition main :: "environment \<Rightarrow> string list \<Rightarrow> event list \<times> int" where
  "main env argv =
     (case getopt_loop defaults [] [] (tl argv) of
        None \<Rightarrow> ([usage (argv_at argv 0)], 1)
      | Some (cfg, positional) \<Rightarrow>
          (if positional = [] then
             ([Printf Stderr ''Expecting training images file and test images file\<newline>'' []],
              1)
           else
             (case select_metric (dist_metric cfg) of
                None \<Rightarrow> ([Perror ''Invalid distance metric''], 1)
              | Some d \<Rightarrow>
                  exit_status
                    (run env cfg d (argv_at positional 0) (argv_at positional 1)))))"

subsection \<open>Reading a trace\<close>

fun on_stdout :: "event \<Rightarrow> bool" where
  "on_stdout (Printf Stdout fmt args) = True"
| "on_stdout e = False"

definition stdout_of :: "event list \<Rightarrow> event list" where
  "stdout_of trace = filter on_stdout trace"

fun on_stderr :: "event \<Rightarrow> bool" where
  "on_stderr (Printf Stderr fmt args) = True"
| "on_stderr (Perror msg) = True"
| "on_stderr e = False"

definition stderr_of :: "event list \<Rightarrow> event list" where
  "stderr_of trace = filter on_stderr trace"

text \<open>
  \<open>stdout_of\<close> lists the parent's own \<^verbatim>\<open>printf\<close> calls.  What arrives on the standard
  output also depends on how stdio buffers it.  On a terminal every line is written at
  once.  On a pipe or a file the output stays in the buffer until \<^verbatim>\<open>exit\<close>;
  \<^verbatim>\<open>fork\<close> copies the buffer, and a child that ends through \<^verbatim>\<open>exit\<close> writes its
  copy.  \<open>inherited buf trace\<close> is what the children write then: for every \<^verbatim>\<open>fork\<close>
  of the trace, the output of the parent up to there.  In a run that ends with status 0
  the parent has waited for all its children, so its own output comes last.  This
  describes runs in which every child ends through \<^verbatim>\<open>exit\<close> and \<^verbatim>\<open>child_handler\<close>
  prints nothing itself.
\<close>

fun inherited :: "event list \<Rightarrow> event list \<Rightarrow> event list" where
  "inherited buf [] = []"
| "inherited buf (e # es) =
     (case e of
        Call (Fork i) \<Rightarrow> buf @ inherited buf es
      | Printf Stdout fmt args \<Rightarrow> inherited (buf @ [e]) es
      | _ \<Rightarrow> inherited buf es)"

definition stdout_stream :: "bool \<Rightarrow> event list \<Rightarrow> event list" where
  "stdout_stream fully_buffered trace =
     (if fully_buffered then inherited [] trace else []) @ stdout_of trace"

text \<open>
  An environment for concrete runs: the files \<^verbatim>\<open>train\<close> and \<^verbatim>\<open>test\<close> load, with
  the given numbers of items, no system call fails, child \<open>i\<close> behaves as \<open>w i\<close>.
\<close>

definition example_env :: "int \<Rightarrow> int \<Rightarrow> (nat \<Rightarrow> worker_run) \<Rightarrow> environment" where
  "example_env ntrain ntest w =
     \<lparr>load_dataset =
        (\<lambda>f. if f = Some ''train'' then Some \<lparr>num_items = ntrain\<rparr>
             else if f = Some ''test'' then Some \<lparr>num_items = ntest\<rparr>
             else None),
      fails = (\<lambda>c. False),
      child_handler = (\<lambda>training testing k d i sl. w i),
      num_correct_init = 0\<rparr>"

section \<open>Properties of the partitioning loop\<close>

subsection \<open>The ceiling\<close>

lemma initial_N_neg_div: "initial_N n p = - ((- n) div p)"
  by (simp add: initial_N_def ceiling_divide_eq_div)

lemma initial_N_nonneg: "0 \<le> n \<Longrightarrow> 1 \<le> p \<Longrightarrow> 0 \<le> initial_N n p"
proof -
  assume "0 \<le> n" "1 \<le> p"
  then have "0 \<le> real_of_int n / real_of_int p" by simp
  then have "- 1 < real_of_int n / real_of_int p" by linarith
  then show ?thesis by (simp add: initial_N_def)
qed

lemma initial_N_covers: "1 \<le> p \<Longrightarrow> n \<le> p * initial_N n p"
proof -
  assume p: "1 \<le> p"
  have "real_of_int n / real_of_int p \<le> real_of_int (initial_N n p)"
    by (simp add: initial_N_def)
  then have "real_of_int n \<le> real_of_int (initial_N n p) * real_of_int p"
    using p by (simp add: divide_le_eq)
  then have "real_of_int n \<le> real_of_int (p * initial_N n p)"
    by (simp add: mult.commute)
  then show ?thesis by linarith
qed

lemma initial_N_pos: "0 < n \<Longrightarrow> 1 \<le> p \<Longrightarrow> 0 < initial_N n p"
  by (simp add: initial_N_def)

lemma initial_N_tight: "1 \<le> p \<Longrightarrow> p * (initial_N n p - 1) < n"
proof -
  assume p: "1 \<le> p"
  have "real_of_int (initial_N n p) - 1 < real_of_int n / real_of_int p"
    unfolding initial_N_def by linarith
  then have "(real_of_int (initial_N n p) - 1) * real_of_int p < real_of_int n"
    using p by (simp add: less_divide_eq)
  then have "real_of_int (p * (initial_N n p - 1)) < real_of_int n"
    by (simp add: mult.commute)
  then show ?thesis by linarith
qed


subsection \<open>Invariants of the loop\<close>

lemma adjust_N_le: "adjust_N n c N \<le> N"
  by (simp add: adjust_N_def)

lemma adjust_N_nonneg: "0 \<le> N \<Longrightarrow> c \<le> n \<Longrightarrow> 0 \<le> adjust_N n c N"
  by (simp add: adjust_N_def)

lemma adjust_N_fits: "c + adjust_N n c N \<le> n"
  by (simp add: adjust_N_def)

lemma length_distribute: "length (distribute n k N c) = k"
  by (induction k arbitrary: N c) (simp_all add: Let_def)

lemma distribute_first: "0 < k \<Longrightarrow> fst (distribute n k N c ! 0) = c"
  by (cases k) (simp_all add: Let_def)

lemma distribute_next:
  "Suc i < k \<Longrightarrow>
   fst (distribute n k N c ! Suc i) = fst (distribute n k N c ! i) + snd (distribute n k N c ! i)"
proof (induction k arbitrary: i N c)
  case 0
  then show ?case by simp
next
  case (Suc k)
  show ?case
  proof (cases i)
    case 0
    with Suc.prems obtain k' where "k = Suc k'" by (cases k) auto
    with 0 show ?thesis by (simp add: Let_def)
  next
    case (Suc j)
    with Suc.prems have "Suc j < k" by simp
    from Suc.IH [OF this] Suc show ?thesis by (simp add: Let_def)
  qed
qed

lemma distribute_counts:
  "0 \<le> N \<Longrightarrow> c \<le> n \<Longrightarrow> (s, m) \<in> set (distribute n k N c) \<Longrightarrow>
   0 \<le> m \<and> m \<le> N \<and> c \<le> s \<and> s + m \<le> n"
proof (induction k arbitrary: N c)
  case 0
  then show ?case by simp
next
  case (Suc k)
  let ?N = "adjust_N n c N"
  have N': "0 \<le> ?N" "?N \<le> N" "c + ?N \<le> n"
    using Suc.prems by (simp_all add: adjust_N_nonneg adjust_N_le adjust_N_fits)
  from Suc.prems(3) consider "(s, m) = (c, ?N)" | "(s, m) \<in> set (distribute n k ?N (c + ?N))"
    by (auto simp: Let_def)
  then show ?case
  proof cases
    case 1
    with N' show ?thesis by simp
  next
    case 2
    from Suc.IH [OF N'(1) N'(3) 2] N' show ?thesis by linarith
  qed
qed

lemma sum_distribute:
  "0 \<le> N \<Longrightarrow> c \<le> n \<Longrightarrow>
   sum_list (map snd (distribute n k N c)) = min (n - c) (int k * N)"
proof (induction k arbitrary: N c)
  case 0
  then show ?case by simp
next
  case (Suc k)
  let ?N = "adjust_N n c N"
  have N': "0 \<le> ?N" "c + ?N \<le> n"
    using Suc.prems by (simp_all add: adjust_N_nonneg adjust_N_fits)
  have step: "sum_list (map snd (distribute n (Suc k) N c)) = ?N + min (n - (c + ?N)) (int k * ?N)"
    using Suc.IH [OF N'] by (simp add: Let_def)
  show ?case
  proof (cases "n - c < N")
    case True
    then have eq: "?N = n - c" by (simp add: adjust_N_def)
    have "0 \<le> int k * (n - c)" using Suc.prems by simp
    moreover have "N \<le> int (Suc k) * N" using Suc.prems(1)
      by (simp add: algebra_simps)
    ultimately show ?thesis using True step eq by simp
  next
    case False
    then have eq: "?N = N" by (simp add: adjust_N_def)
    have "int (Suc k) * N = N + int k * N" by (simp add: algebra_simps)
    with False step eq show ?thesis by simp
  qed
qed

lemma distribute_exhausted:
  "0 \<le> N \<Longrightarrow> distribute n k N n = replicate k (n, 0)"
  by (induction k arbitrary: N) (simp_all add: Let_def adjust_N_def)

lemma distribute_short:
  "0 \<le> N \<Longrightarrow> c \<le> n \<Longrightarrow> n - c < N \<Longrightarrow>
   distribute n (Suc k) N c = (c, n - c) # replicate k (n, 0)"
  using distribute_exhausted [of "n - c" n k] by (simp add: Let_def adjust_N_def)

lemma distribute_full:
  "\<not> n - c < N \<Longrightarrow> distribute n (Suc k) N c = (c, N) # distribute n k N (c + N)"
  by (simp add: Let_def adjust_N_def)


lemma union_distribute:
  "0 \<le> N \<Longrightarrow> c \<le> n \<Longrightarrow>
   (\<Union>(s, m) \<in> set (distribute n k N c). {s..<s + m}) =
   {c..<c + sum_list (map snd (distribute n k N c))}"
proof (induction k arbitrary: N c)
  case 0
  then show ?case by simp
next
  case (Suc k)
  let ?N = "adjust_N n c N"
  let ?r = "distribute n k ?N (c + ?N)"
  have N': "0 \<le> ?N" "c + ?N \<le> n"
    using Suc.prems by (simp_all add: adjust_N_nonneg adjust_N_fits)
  have rest: "0 \<le> sum_list (map snd ?r)"
    using sum_distribute [OF N', of k] N' by simp
  have "(\<Union>(s, m) \<in> set (distribute n (Suc k) N c). {s..<s + m}) =
        {c..<c + ?N} \<union> (\<Union>(s, m) \<in> set ?r. {s..<s + m})"
    by (simp add: Let_def)
  also have "\<dots> = {c..<c + ?N} \<union> {c + ?N..<c + ?N + sum_list (map snd ?r)}"
    using Suc.IH [OF N'] by simp
  also have "\<dots> = {c..<c + ?N + sum_list (map snd ?r)}"
    using N'(1) rest by (intro ivl_disj_un_two) simp_all
  finally show ?case by (simp add: Let_def add.assoc)
qed

lemma distribute_ordered:
  "0 \<le> N \<Longrightarrow> c \<le> n \<Longrightarrow> i < j \<Longrightarrow> j < k \<Longrightarrow>
   fst (distribute n k N c ! i) + snd (distribute n k N c ! i) \<le> fst (distribute n k N c ! j)"
proof (induction k arbitrary: N c i j)
  case 0
  then show ?case by simp
next
  case (Suc k)
  let ?N = "adjust_N n c N"
  let ?r = "distribute n k ?N (c + ?N)"
  have N': "0 \<le> ?N" "c + ?N \<le> n"
    using Suc.prems by (simp_all add: adjust_N_nonneg adjust_N_fits)
  from Suc.prems obtain j' where j: "j = Suc j'" "j' < k" by (cases j) auto
  show ?case
  proof (cases i)
    case 0
    have "?r ! j' \<in> set ?r" using j by (simp add: length_distribute)
    then have "(fst (?r ! j'), snd (?r ! j')) \<in> set ?r" by simp
    from distribute_counts [OF N' this] have "c + ?N \<le> fst (?r ! j')" by simp
    with 0 j show ?thesis by (simp add: Let_def)
  next
    case (Suc i')
    with Suc.prems j have "i' < j'" by simp
    from Suc.IH [OF N' this j(2)] Suc j show ?thesis by (simp add: Let_def)
  qed
qed

lemma distribute_nonincreasing:
  "0 \<le> N \<Longrightarrow> c \<le> n \<Longrightarrow> i \<le> j \<Longrightarrow> j < k \<Longrightarrow>
   snd (distribute n k N c ! j) \<le> snd (distribute n k N c ! i)"
proof (induction k arbitrary: N c i j)
  case 0
  then show ?case by simp
next
  case (Suc k)
  let ?N = "adjust_N n c N"
  let ?r = "distribute n k ?N (c + ?N)"
  have N': "0 \<le> ?N" "c + ?N \<le> n"
    using Suc.prems by (simp_all add: adjust_N_nonneg adjust_N_fits)
  show ?case
  proof (cases j)
    case 0
    with Suc.prems show ?thesis by simp
  next
    case j: (Suc j')
    with Suc.prems have j': "j' < k" by simp
    show ?thesis
    proof (cases i)
      case 0
      have "(fst (?r ! j'), snd (?r ! j')) \<in> set ?r" using j' by (simp add: length_distribute)
      from distribute_counts [OF N' this] have "snd (?r ! j') \<le> ?N" by simp
      with 0 j show ?thesis by (simp add: Let_def)
    next
      case (Suc i')
      with Suc.prems j have "i' \<le> j'" by simp
      from Suc.IH [OF N' this j'] Suc j show ?thesis by (simp add: Let_def)
    qed
  qed
qed

lemma distribute_zero_tail:
  "0 \<le> N \<Longrightarrow> c \<le> n \<Longrightarrow> 0 < N \<or> c = n \<Longrightarrow> i < j \<Longrightarrow> j < k \<Longrightarrow>
   snd (distribute n k N c ! i) = 0 \<Longrightarrow> distribute n k N c ! j = (n, 0)"
proof (induction k arbitrary: N c i j)
  case 0
  then show ?case by simp
next
  case (Suc k)
  let ?N = "adjust_N n c N"
  have N': "0 \<le> ?N" "c + ?N \<le> n"
    using Suc.prems by (simp_all add: adjust_N_nonneg adjust_N_fits)
  have inv: "0 < ?N \<or> c + ?N = n"
    using Suc.prems(1,3) by (auto simp: adjust_N_def)
  from Suc.prems obtain j' where j: "j = Suc j'" "j' < k" by (cases j) auto
  show ?case
  proof (cases i)
    case 0
    with Suc.prems(6) have z: "?N = 0" by (simp add: Let_def)
    with inv have "c = n" by simp
    with z j show ?thesis
      by (simp add: Let_def distribute_exhausted)
  next
    case (Suc i')
    with Suc.prems j have "i' < j'" "snd (distribute n k ?N (c + ?N) ! i') = 0"
      by (simp_all add: Let_def)
    from Suc.IH [OF N' inv this(1) j(2) this(2)] j show ?thesis by (simp add: Let_def)
  qed
qed

lemma distribute_partial:
  "0 \<le> N \<Longrightarrow> c \<le> n \<Longrightarrow>
   length (filter (\<lambda>(s, m). 0 < m \<and> m < N) (distribute n k N c)) \<le> 1"
proof (induction k arbitrary: c)
  case 0
  then show ?case by simp
next
  case (Suc k)
  show ?case
  proof (cases "n - c < N")
    case True
    have "filter (\<lambda>(s, m). 0 < m \<and> m < N) (replicate k (n, 0)) = []"
      by (induction k) simp_all
    with True Suc.prems show ?thesis
      by (simp add: distribute_short del: distribute.simps)
  next
    case False
    then have "c + N \<le> n" by simp
    from Suc.IH [OF Suc.prems(1) this] False show ?thesis
      by (simp add: distribute_full del: distribute.simps)
  qed
qed


subsection \<open>The slices of a run\<close>

lemma partition_sum: "0 \<le> n \<Longrightarrow> 1 \<le> p \<Longrightarrow> sum_list (map snd (partition_slices n p)) = n"
proof -
  assume n: "0 \<le> n" and p: "1 \<le> p"
  have np: "int (nat p) = p" using p by simp
  have "sum_list (map snd (partition_slices n p)) = min (n - 0) (int (nat p) * initial_N n p)"
    unfolding partition_slices_def
    by (rule sum_distribute [OF initial_N_nonneg [OF n p] n])
  also have "\<dots> = min n (p * initial_N n p)" by (simp only: np diff_zero)
  also have "\<dots> = n" using initial_N_covers [OF p, of n] by simp
  finally show ?thesis .
qed

text \<open>
  Claim C1 (partition completeness).  For a test set of \<open>n \<ge> 0\<close> items and
  \<open>p \<ge> 1\<close> workers the loop writes \<open>p\<close> slices; the first starts at index 0, each
  next one starts where its predecessor ends, no count is negative and every slice lies
  within \<open>0..n\<close>, the counts add up to \<open>n\<close>, the slices together cover exactly the
  indices \<open>0, \<dots>, n - 1\<close>, and two different slices share no index.
\<close>

theorem partition_complete:
  assumes "0 \<le> n" and "1 \<le> p"
  shows "length (partition_slices n p) = nat p
       \<and> fst (partition_slices n p ! 0) = 0
       \<and> (\<forall>i. Suc i < nat p \<longrightarrow>
            fst (partition_slices n p ! Suc i) =
            fst (partition_slices n p ! i) + snd (partition_slices n p ! i))
       \<and> (\<forall>(s, m) \<in> set (partition_slices n p). 0 \<le> m \<and> 0 \<le> s \<and> s + m \<le> n)
       \<and> sum_list (map snd (partition_slices n p)) = n
       \<and> (\<Union>(s, m) \<in> set (partition_slices n p). {s..<s + m}) = {0..<n}
       \<and> (\<forall>i j. i < j \<and> j < nat p \<longrightarrow>
            {fst (partition_slices n p ! i)..<
               fst (partition_slices n p ! i) + snd (partition_slices n p ! i)} \<inter>
            {fst (partition_slices n p ! j)..<
               fst (partition_slices n p ! j) + snd (partition_slices n p ! j)} = {})"
proof -
  let ?sl = "partition_slices n p"
  note N0 = initial_N_nonneg [OF assms]
  have len: "length ?sl = nat p"
    by (simp add: partition_slices_def length_distribute)
  have first: "fst (?sl ! 0) = 0"
    using assms by (simp add: partition_slices_def distribute_first)
  have "next": "\<forall>i. Suc i < nat p \<longrightarrow> fst (?sl ! Suc i) = fst (?sl ! i) + snd (?sl ! i)"
    by (simp add: partition_slices_def distribute_next)
  have counts: "\<forall>(s, m) \<in> set ?sl. 0 \<le> m \<and> 0 \<le> s \<and> s + m \<le> n"
    unfolding partition_slices_def
    using distribute_counts [OF N0 assms(1)] by fastforce
  have total: "sum_list (map snd ?sl) = n"
    by (rule partition_sum [OF assms])
  have cover: "(\<Union>(s, m) \<in> set ?sl. {s..<s + m}) = {0..<n}"
    using union_distribute [OF N0 assms(1), of "nat p"] total
    by (simp add: partition_slices_def)
  have disj: "\<forall>i j. i < j \<and> j < nat p \<longrightarrow>
      {fst (?sl ! i)..<fst (?sl ! i) + snd (?sl ! i)} \<inter>
      {fst (?sl ! j)..<fst (?sl ! j) + snd (?sl ! j)} = {}"
  proof (intro allI impI)
    fix i j assume "i < j \<and> j < nat p"
    then have "fst (?sl ! i) + snd (?sl ! i) \<le> fst (?sl ! j)"
      unfolding partition_slices_def
      using distribute_ordered [OF N0 assms(1), of i j "nat p"] by simp
    then show "{fst (?sl ! i)..<fst (?sl ! i) + snd (?sl ! i)} \<inter>
      {fst (?sl ! j)..<fst (?sl ! j) + snd (?sl ! j)} = {}"
      by auto
  qed
  from len first "next" counts total cover disj show ?thesis by blast
qed

lemma partition_slices_5_2: "partition_slices 5 2 = [(0, 3), (3, 2)]"
  by code_simp

lemma partition_slices_5_4: "partition_slices 5 4 = [(0, 2), (2, 2), (4, 1), (5, 0)]"
  by code_simp

lemma partition_slices_2_4: "partition_slices 2 4 = [(0, 1), (1, 1), (2, 0), (2, 0)]"
  by code_simp

theorem partition_complete_witness:
  "(0::int) \<le> 5 \<and> (1::int) \<le> 2
   \<and> length (partition_slices 5 2) = 2
   \<and> sum_list (map snd (partition_slices 5 2)) = 5
   \<and> (\<Union>(s, m) \<in> set (partition_slices 5 2). {s..<s + m}) = {0..<5}"
  using partition_complete [of 5 2] by simp

text \<open>
  Claim C2 as stated fails: with 5 test items and 4 workers the ceiling is 2 and the
  slices have the sizes 2, 2, 1, 0, so two slices are smaller than the ceiling.
\<close>

theorem partition_fairness_counterexample:
  "initial_N 5 4 = 2
   \<and> partition_slices 5 4 = [(0, 2), (2, 2), (4, 1), (5, 0)]
   \<and> \<not> length (filter (\<lambda>(s, m). m < initial_N 5 4) (partition_slices 5 4)) \<le> 1"
  by (simp add: partition_slices_5_4) (simp add: initial_N_def)

text \<open>
  Claim C2 (partition fairness), amended.  For \<open>n \<ge> 0\<close> and \<open>p \<ge> 1\<close> no slice is
  larger than \<open>ceil(n / p)\<close>; at most one slice is short and not empty (its size
  strictly between 0 and the ceiling), and every other short slice is empty; for 5 items
  and 2 workers the sizes are 3 and 2 in worker order.
\<close>

theorem partition_fairness:
  assumes "0 \<le> n" and "1 \<le> p"
  shows "(\<forall>(s, m) \<in> set (partition_slices n p). m \<le> initial_N n p)
       \<and> length (filter (\<lambda>(s, m). 0 < m \<and> m < initial_N n p) (partition_slices n p)) \<le> 1
       \<and> (\<forall>(s, m) \<in> set (partition_slices n p).
             m < initial_N n p \<and> \<not> (0 < m \<and> m < initial_N n p) \<longrightarrow> m = 0)
       \<and> partition_slices 5 2 = [(0, 3), (3, 2)]"
proof -
  note N0 = initial_N_nonneg [OF assms]
  have "\<forall>(s, m) \<in> set (partition_slices n p). 0 \<le> m \<and> m \<le> initial_N n p"
    unfolding partition_slices_def
    using distribute_counts [OF N0 assms(1)] by fastforce
  moreover have "length (filter (\<lambda>(s, m). 0 < m \<and> m < initial_N n p) (partition_slices n p)) \<le> 1"
    unfolding partition_slices_def by (rule distribute_partial [OF N0 assms(1)])
  ultimately show ?thesis
    using partition_slices_5_2 by fastforce
qed

theorem partition_fairness_witness:
  "(0::int) \<le> 5 \<and> (1::int) \<le> 4
   \<and> length (filter (\<lambda>(s, m). 0 < m \<and> m < initial_N 5 4) (partition_slices 5 4)) \<le> 1
   \<and> partition_slices 5 2 = [(0, 3), (3, 2)]"
proof -
  have a: "(0::int) \<le> 5" and b: "(1::int) \<le> 4" by simp_all
  from a b partition_fairness [OF a b] show ?thesis by blast
qed

text \<open>
  Claim C10.  For \<open>n \<ge> 0\<close> and \<open>p \<ge> 1\<close> the slice sizes never increase in worker
  order, and once a worker has a slice of size 0 every later worker is given the start
  index \<open>n\<close> and the size 0.
\<close>

theorem partition_nonincreasing:
  assumes "0 \<le> n" and "1 \<le> p"
  shows "(\<forall>i j. i \<le> j \<and> j < nat p \<longrightarrow>
            snd (partition_slices n p ! j) \<le> snd (partition_slices n p ! i))
       \<and> (\<forall>i j. i < j \<and> j < nat p \<and> snd (partition_slices n p ! i) = 0 \<longrightarrow>
            partition_slices n p ! j = (n, 0))"
proof -
  note N0 = initial_N_nonneg [OF assms]
  have inv: "0 < initial_N n p \<or> 0 = n"
    using initial_N_pos [OF _ assms(2), of n] assms(1) by linarith
  have "\<forall>i j. i \<le> j \<and> j < nat p \<longrightarrow>
            snd (partition_slices n p ! j) \<le> snd (partition_slices n p ! i)"
    unfolding partition_slices_def
    using distribute_nonincreasing [OF N0 assms(1)] by blast
  moreover have "\<forall>i j. i < j \<and> j < nat p \<and> snd (partition_slices n p ! i) = 0 \<longrightarrow>
            partition_slices n p ! j = (n, 0)"
    unfolding partition_slices_def
    using distribute_zero_tail [OF N0 assms(1) inv] by blast
  ultimately show ?thesis by blast
qed

theorem partition_nonincreasing_witness:
  "(0::int) \<le> 2 \<and> (1::int) \<le> 4
   \<and> snd (partition_slices 2 4 ! 3) \<le> snd (partition_slices 2 4 ! 1)
   \<and> snd (partition_slices 2 4 ! 2) = 0
   \<and> partition_slices 2 4 ! 3 = (2, 0)"
proof -
  have a: "(0::int) \<le> 2" and b: "(1::int) \<le> 4" by simp_all
  have z: "snd (partition_slices 2 4 ! 2) = 0"
    by (simp add: partition_slices_2_4)
  have i: "(1::nat) \<le> 3 \<and> 3 < nat 4" and j: "(2::nat) < 3 \<and> 3 < nat 4" by simp_all
  from partition_nonincreasing [OF a b] i
  have "snd (partition_slices 2 4 ! 3) \<le> snd (partition_slices 2 4 ! 1)" by blast
  moreover from partition_nonincreasing [OF a b] j z
  have "partition_slices 2 4 ! 3 = (2, 0)" by blast
  ultimately show ?thesis using a b z by blast
qed

section \<open>Properties of a run\<close>

subsection \<open>Steps\<close>

lemma io_bind_Some:
  "io_bind m f = (t, Some y) \<Longrightarrow>
   \<exists>t1 x t2. m = (t1, Some x) \<and> f x = (t2, Some y) \<and> t = t1 @ t2"
  by (cases m) (auto simp: io_bind_def prod_eq_iff split: option.splits)

lemma io_seq_Some:
  "io_seq m m' = (t, Some y) \<Longrightarrow>
   \<exists>t1 t2. m = (t1, Some ()) \<and> m' = (t2, Some y) \<and> t = t1 @ t2"
  unfolding io_seq_def by (drule io_bind_Some) auto

lemma io_bind_ok: "m = (t1, Some x) \<Longrightarrow> io_bind m f = (t1 @ fst (f x), snd (f x))"
  by (simp add: io_bind_def)

lemma io_seq_ok: "m = (t1, Some ()) \<Longrightarrow> io_seq m m' = (t1 @ fst m', snd m')"
  by (simp add: io_seq_def io_bind_def)

lemma sys_Some: "sys env c msg = (t, Some u) \<Longrightarrow> t = [Call c] \<and> \<not> fails env c"
  by (auto simp: sys_def split: if_splits)

lemma sys_ok: "\<not> fails env c \<Longrightarrow> sys env c msg = ([Call c], Some ())"
  by (simp add: sys_def)

lemma say_eq: "say b e = (t, r) \<Longrightarrow> t = (if b then [e] else []) \<and> r = Some ()"
  by (auto simp: say_def)

lemma load_Some: "load env f = (t, Some d) \<Longrightarrow> t = [Load f] \<and> load_dataset env f = Some d"
  by (auto simp: load_def split: option.splits)

subsection \<open>Reading traces\<close>

lemma stdout_of_append: "stdout_of (a @ b) = stdout_of a @ stdout_of b"
  by (simp add: stdout_of_def)

lemma stderr_of_append: "stderr_of (a @ b) = stderr_of a @ stderr_of b"
  by (simp add: stderr_of_def)

lemma inherited_append:
  "inherited buf (a @ b) = inherited buf a @ inherited (buf @ stdout_of a) b"
proof (induction a arbitrary: buf)
  case Nil
  then show ?case by (simp add: stdout_of_def)
next
  case (Cons e a)
  show ?case
  proof (cases e)
    case (Printf st fmt args)
    then show ?thesis using Cons.IH by (cases st) (simp_all add: stdout_of_def)
  next
    case (Call c)
    then show ?thesis using Cons.IH by (cases c) (simp_all add: stdout_of_def)
  qed (simp_all add: Cons.IH stdout_of_def)
qed

subsection \<open>Each loop in a run that does not exit early\<close>

lemma create_children_Some:
  "create_children env i k = (t, Some u) \<Longrightarrow>
   stdout_of t = [] \<and> (\<forall>j < k. Call (Fork (i + j)) \<in> set t)"
proof (induction k arbitrary: i t)
  case 0
  then show ?case by (simp add: stdout_of_def)
next
  case (Suc k)
  from Suc.prems obtain t1 t2 t3
    where p: "sys env (Pipe i) ''Failed pipe'' = (t1, Some ())"
      and f: "sys env (Fork i) ''Failed forking child process'' = (t2, Some ())"
      and r: "create_children env (Suc i) k = (t3, Some u)"
      and t: "t = t1 @ t2 @ t3"
    by (auto dest!: io_seq_Some)
  from Suc.IH [OF r] sys_Some [OF p] sys_Some [OF f] t show ?case
    by (auto simp: stdout_of_def less_Suc_eq_0_disj)
qed

lemma distribute_loop_Some:
  "distribute_loop env n i k N c = (t, Some w) \<Longrightarrow>
   stdout_of t = [] \<and> w = distribute n k N c
   \<and> (\<forall>j < k. Call (WriteStart (i + j) (fst (w ! j))) \<in> set t
              \<and> Call (WriteN (i + j) (snd (w ! j))) \<in> set t)"
proof (induction k arbitrary: i N c t w)
  case 0
  then show ?case by (simp add: stdout_of_def)
next
  case (Suc k)
  let ?N = "adjust_N n c N"
  from Suc.prems obtain t1 t2 t3 t4 w'
    where a: "sys env (WriteStart i c) ''Failed writing starting index to child'' = (t1, Some ())"
      and b: "sys env (WriteN i ?N) ''Failed writing N to child'' = (t2, Some ())"
      and d: "sys env (CloseWrite i) ''Closing parent write pipe'' = (t3, Some ())"
      and r: "distribute_loop env n (Suc i) k ?N (c + ?N) = (t4, Some w')"
      and w: "w = (c, ?N) # w'"
      and t: "t = t1 @ t2 @ t3 @ t4"
    by (auto simp: Let_def dest!: io_seq_Some io_bind_Some)
  note ih = Suc.IH [OF r]
  have "stdout_of t = []"
    using ih sys_Some [OF a] sys_Some [OF b] sys_Some [OF d] t by (simp add: stdout_of_def)
  moreover have "w = distribute n (Suc k) N c"
    using ih w by (simp add: Let_def)
  moreover have "\<forall>j < Suc k. Call (WriteStart (i + j) (fst (w ! j))) \<in> set t
              \<and> Call (WriteN (i + j) (snd (w ! j))) \<in> set t"
  proof (intro allI impI)
    fix j assume j: "j < Suc k"
    show "Call (WriteStart (i + j) (fst (w ! j))) \<in> set t
              \<and> Call (WriteN (i + j) (snd (w ! j))) \<in> set t"
    proof (cases j)
      case 0
      with sys_Some [OF a] sys_Some [OF b] t w show ?thesis by simp
    next
      case (Suc j')
      with j have "j' < k" by simp
      with ih have "Call (WriteStart (Suc i + j') (fst (w' ! j'))) \<in> set t4
              \<and> Call (WriteN (Suc i + j') (snd (w' ! j'))) \<in> set t4" by blast
      with Suc t w show ?thesis by simp
    qed
  qed
  ultimately show ?case by blast
qed

lemma wait_loop_Some:
  "wait_loop env i k = (t, Some u) \<Longrightarrow>
   stdout_of t = [] \<and> (\<forall>j < k. Call (Wait (i + j)) \<in> set t)"
proof (induction k arbitrary: i t)
  case 0
  then show ?case by (simp add: stdout_of_def)
next
  case (Suc k)
  from Suc.prems obtain t1 t2
    where a: "sys env (Wait i) ''failed wait call'' = (t1, Some ())"
      and r: "wait_loop env (Suc i) k = (t2, Some u)"
      and t: "t = t1 @ t2"
    by (auto dest!: io_seq_Some)
  from Suc.IH [OF r] sys_Some [OF a] t show ?case
    by (auto simp: stdout_of_def less_Suc_eq_0_disj)
qed

lemma read_loop_Some:
  "read_loop env pipes i k nc tot = (t, Some res) \<Longrightarrow>
   stdout_of t = [] \<and> (\<forall>j < k. Call (Read (i + j)) \<in> set t)"
proof (induction k arbitrary: i nc tot t)
  case 0
  then show ?case by (simp add: stdout_of_def)
next
  case (Suc k)
  let ?nc = "case pipes i of [] \<Rightarrow> nc | v # _ \<Rightarrow> v"
  from Suc.prems obtain t1 t2 t3
    where a: "sys env (Read i) ''Failed reading result from child'' = (t1, Some ())"
      and b: "sys env (CloseRead i) ''Closing parent read pipe'' = (t2, Some ())"
      and r: "read_loop env pipes (Suc i) k ?nc (int_cast (tot + ?nc)) = (t3, Some res)"
      and t: "t = t1 @ t2 @ t3"
    by (auto simp: Let_def dest!: io_seq_Some)
  from Suc.IH [OF r] sys_Some [OF a] sys_Some [OF b] t show ?case
    by (auto simp: stdout_of_def less_Suc_eq_0_disj)
qed

lemma int_cast_id: "- (2 ^ 31) \<le> v \<Longrightarrow> v < 2 ^ 31 \<Longrightarrow> int_cast v = v"
  by (simp add: int_cast_def)


lemma read_loop_total:
  "read_loop env pipes i k nc tot = (t, Some res) \<Longrightarrow>
   \<forall>j. i \<le> j \<and> j < i + k \<longrightarrow> pipes j = [c j] \<and> 0 \<le> c j \<Longrightarrow>
   0 \<le> tot \<Longrightarrow> tot + (\<Sum>j = i..<i + k. c j) < 2 ^ 31 \<Longrightarrow>
   res = tot + (\<Sum>j = i..<i + k. c j)"
proof (induction k arbitrary: i nc tot t)
  case 0
  then show ?case by simp
next
  case (Suc k)
  let ?nc = "case pipes i of [] \<Rightarrow> nc | v # _ \<Rightarrow> v"
  from Suc.prems(1) obtain t3
    where r: "read_loop env pipes (Suc i) k ?nc (int_cast (tot + ?nc)) = (t3, Some res)"
    by (auto simp: Let_def dest!: io_seq_Some)
  have here: "pipes i = [c i]" "0 \<le> c i" using Suc.prems(2) by simp_all
  have later: "\<forall>j. Suc i \<le> j \<and> j < Suc i + k \<longrightarrow> pipes j = [c j] \<and> 0 \<le> c j"
    using Suc.prems(2) by simp
  have split: "(\<Sum>j = i..<i + Suc k. c j) = c i + (\<Sum>j = Suc i..<Suc i + k. c j)"
    by (simp add: sum.atLeast_Suc_lessThan)
  have rest: "0 \<le> (\<Sum>j = Suc i..<Suc i + k. c j)"
    using later by (intro sum_nonneg) simp
  have small: "tot + c i < 2 ^ 31" "0 \<le> tot + c i"
    using Suc.prems(3,4) here(2) rest unfolding split by linarith+
  then have cast: "int_cast (tot + ?nc) = tot + c i"
    using here(1) by (simp add: int_cast_id)
  have "res = (tot + c i) + (\<Sum>j = Suc i..<Suc i + k. c j)"
  proof (rule Suc.IH [OF _ later])
    show "read_loop env pipes (Suc i) k ?nc (tot + c i) = (t3, Some res)"
      using r cast by simp
    show "0 \<le> tot + c i" by (rule small(2))
    show "tot + c i + (\<Sum>j = Suc i..<Suc i + k. c j) < 2 ^ 31"
      using Suc.prems(4) unfolding split by linarith
  qed
  then show ?case unfolding split by simp
qed

subsection \<open>What each loop puts on the two streams\<close>

lemma concat_replicate_single: "concat (replicate k [x]) = replicate k x"
  by (induction k) simp_all

lemma create_children_streams:
  "create_children env i k = (t, Some u) \<Longrightarrow>
   stderr_of t = [] \<and> inherited buf t = concat (replicate k buf)"
proof (induction k arbitrary: i t)
  case 0
  then show ?case by (simp add: stderr_of_def)
next
  case (Suc k)
  from Suc.prems obtain t1 t2 t3
    where p: "sys env (Pipe i) ''Failed pipe'' = (t1, Some ())"
      and f: "sys env (Fork i) ''Failed forking child process'' = (t2, Some ())"
      and r: "create_children env (Suc i) k = (t3, Some u)"
      and t: "t = t1 @ t2 @ t3"
    by (auto dest!: io_seq_Some)
  from sys_Some [OF p] sys_Some [OF f] have t12: "t1 = [Call (Pipe i)]" "t2 = [Call (Fork i)]"
    by simp_all
  from Suc.IH [OF r] show ?case
    unfolding t t12 by (simp add: stderr_of_def)
qed

lemma distribute_loop_streams:
  "distribute_loop env n i k N c = (t, Some w) \<Longrightarrow>
   stderr_of t = [] \<and> inherited buf t = []"
proof (induction k arbitrary: i N c t w)
  case 0
  then show ?case by (simp add: stderr_of_def)
next
  case (Suc k)
  let ?N = "adjust_N n c N"
  from Suc.prems obtain t1 t2 t3 t4 w'
    where a: "sys env (WriteStart i c) ''Failed writing starting index to child'' = (t1, Some ())"
      and b: "sys env (WriteN i ?N) ''Failed writing N to child'' = (t2, Some ())"
      and d: "sys env (CloseWrite i) ''Closing parent write pipe'' = (t3, Some ())"
      and r: "distribute_loop env n (Suc i) k ?N (c + ?N) = (t4, Some w')"
      and t: "t = t1 @ t2 @ t3 @ t4"
    by (auto simp: Let_def dest!: io_seq_Some io_bind_Some)
  from sys_Some [OF a] sys_Some [OF b] sys_Some [OF d]
  have ts: "t1 = [Call (WriteStart i c)]" "t2 = [Call (WriteN i ?N)]" "t3 = [Call (CloseWrite i)]"
    by simp_all
  from Suc.IH [OF r] show ?case
    unfolding t ts by (simp add: stderr_of_def)
qed

lemma wait_loop_streams:
  "wait_loop env i k = (t, Some u) \<Longrightarrow> stderr_of t = [] \<and> inherited buf t = []"
proof (induction k arbitrary: i t)
  case 0
  then show ?case by (simp add: stderr_of_def)
next
  case (Suc k)
  from Suc.prems obtain t1 t2
    where a: "sys env (Wait i) ''failed wait call'' = (t1, Some ())"
      and r: "wait_loop env (Suc i) k = (t2, Some u)"
      and t: "t = t1 @ t2"
    by (auto dest!: io_seq_Some)
  from sys_Some [OF a] have ts: "t1 = [Call (Wait i)]" by simp
  from Suc.IH [OF r] show ?case
    unfolding t ts by (simp add: stderr_of_def)
qed

lemma read_loop_streams:
  "read_loop env pipes i k nc tot = (t, Some res) \<Longrightarrow>
   stderr_of t = [] \<and> inherited buf t = []"
proof (induction k arbitrary: i nc tot t)
  case 0
  then show ?case by (simp add: stderr_of_def)
next
  case (Suc k)
  let ?nc = "case pipes i of [] \<Rightarrow> nc | v # _ \<Rightarrow> v"
  from Suc.prems obtain t1 t2 t3
    where a: "sys env (Read i) ''Failed reading result from child'' = (t1, Some ())"
      and b: "sys env (CloseRead i) ''Closing parent read pipe'' = (t2, Some ())"
      and r: "read_loop env pipes (Suc i) k ?nc (int_cast (tot + ?nc)) = (t3, Some res)"
      and t: "t = t1 @ t2 @ t3"
    by (auto simp: Let_def dest!: io_seq_Some)
  from sys_Some [OF a] sys_Some [OF b]
  have ts: "t1 = [Call (Read i)]" "t2 = [Call (CloseRead i)]" by simp_all
  from Suc.IH [OF r] show ?case
    unfolding t ts by (simp add: stderr_of_def)
qed

subsection \<open>A run that ends with status 0\<close>

lemma coordinator_Some:
  assumes "coordinator env cfg d training testing = (t, Some res)"
  shows "\<exists>pre tr.
     t = pre
         @ (if verbose cfg
            then [Printf Stdout ''Number of correct predictions: %d\<newline>'' [IntArg res]]
            else [])
         @ [Printf Stdout ''%d\<newline>'' [IntArg res]]
   \<and> stdout_of pre =
       (if verbose cfg
        then [Printf Stdout ''- Creating children ...\<newline>'' [],
              Printf Stdout ''- Waiting for children...\<newline>'' []]
        else [])
   \<and> (\<forall>j < nat (num_procs cfg).
         Call (Fork j) \<in> set pre
       \<and> Call (WriteStart j (fst (partition_slices (num_items testing) (num_procs cfg) ! j)))
           \<in> set pre
       \<and> Call (WriteN j (snd (partition_slices (num_items testing) (num_procs cfg) ! j)))
           \<in> set pre
       \<and> Call (Wait j) \<in> set pre
       \<and> Call (Read j) \<in> set pre)
   \<and> read_loop env
        (\<lambda>i. pipe_after
               (child_handler env training testing (K cfg) d i
                  (partition_slices (num_items testing) (num_procs cfg) ! i))
               (partition_slices (num_items testing) (num_procs cfg) ! i))
        0 (nat (num_procs cfg)) (num_correct_init env) 0 = (tr, Some res)"
proof -
  let ?P = "nat (num_procs cfg)"
  let ?sl = "partition_slices (num_items testing) (num_procs cfg)"
  from assms obtain t1 t2 t3 w t4 t5 t6 t7 t8
    where s1: "say (verbose cfg) (Printf Stdout ''- Creating children ...\<newline>'' []) = (t1, Some ())"
      and cc: "create_children env 0 ?P = (t2, Some ())"
      and dl: "distribute_loop env (num_items testing) 0 ?P
                 (initial_N (num_items testing) (num_procs cfg)) 0 = (t3, Some w)"
      and s2: "say (verbose cfg) (Printf Stdout ''- Waiting for children...\<newline>'' []) = (t4, Some ())"
      and wl: "wait_loop env 0 ?P = (t5, Some ())"
      and rl: "read_loop env
                 (\<lambda>i. pipe_after (child_handler env training testing (K cfg) d i (w ! i)) (w ! i))
                 0 ?P (num_correct_init env) 0 = (t6, Some res)"
      and s3: "say (verbose cfg)
                 (Printf Stdout ''Number of correct predictions: %d\<newline>'' [IntArg res])
               = (t7, Some ())"
      and s4: "say True (Printf Stdout ''%d\<newline>'' [IntArg res]) = (t8, Some ())"
      and t: "t = t1 @ t2 @ t3 @ t4 @ t5 @ t6 @ t7 @ t8"
    unfolding coordinator_def
    by (auto dest!: io_seq_Some io_bind_Some)
  note dlS = distribute_loop_Some [OF dl]
  from dlS have w: "w = ?sl"
    by (simp add: partition_slices_def)
  from dlS have o3: "stdout_of t3 = []"
    by blast
  from dlS have "\<forall>j < ?P. Call (WriteStart (0 + j) (fst (w ! j))) \<in> set t3
                   \<and> Call (WriteN (0 + j) (snd (w ! j))) \<in> set t3"
    by blast
  then have wr: "\<forall>j < ?P. Call (WriteStart j (fst (w ! j))) \<in> set t3
                   \<and> Call (WriteN j (snd (w ! j))) \<in> set t3"
    by simp
  note c = create_children_Some [OF cc] and wt = wait_loop_Some [OF wl]
    and rd = read_loop_Some [OF rl]
  let ?pre = "t1 @ t2 @ t3 @ t4 @ t5 @ t6"
  have "t = ?pre
         @ (if verbose cfg
            then [Printf Stdout ''Number of correct predictions: %d\<newline>'' [IntArg res]]
            else [])
         @ [Printf Stdout ''%d\<newline>'' [IntArg res]]"
    using t say_eq [OF s3] say_eq [OF s4] by simp
  moreover have "stdout_of ?pre =
       (if verbose cfg
        then [Printf Stdout ''- Creating children ...\<newline>'' [],
              Printf Stdout ''- Waiting for children...\<newline>'' []]
        else [])"
    using say_eq [OF s1] say_eq [OF s2] c wt rd o3
    by (simp add: stdout_of_append) (simp add: stdout_of_def)
  moreover have "\<forall>j < ?P.
         Call (Fork j) \<in> set ?pre
       \<and> Call (WriteStart j (fst (?sl ! j))) \<in> set ?pre
       \<and> Call (WriteN j (snd (?sl ! j))) \<in> set ?pre
       \<and> Call (Wait j) \<in> set ?pre
       \<and> Call (Read j) \<in> set ?pre"
    using c wt rd wr w by simp
  moreover have "read_loop env
        (\<lambda>i. pipe_after (child_handler env training testing (K cfg) d i (?sl ! i)) (?sl ! i))
        0 ?P (num_correct_init env) 0 = (t6, Some res)"
    using rl w by simp
  ultimately show ?thesis by blast
qed

lemma main_status_0:
  assumes "getopt_loop defaults [] [] (tl argv) = Some (cfg, positional)"
      and "main env argv = (trace, 0)"
  shows "\<exists>d training testing t res.
       positional \<noteq> []
     \<and> select_metric (dist_metric cfg) = Some d
     \<and> load_dataset env (argv_at positional 0) = Some training
     \<and> load_dataset env (argv_at positional 1) = Some testing
     \<and> coordinator env cfg d training testing = (t, Some res)
     \<and> trace = (if verbose cfg then [Printf Stderr ''- Loading datasets...\<newline>'' []] else [])
               @ [Load (argv_at positional 0), Load (argv_at positional 1)] @ t"
proof -
  from assms have pos: "positional \<noteq> []"
    by (auto simp: main_def split: if_splits)
  with assms obtain d where d: "select_metric (dist_metric cfg) = Some d"
    by (cases "select_metric (dist_metric cfg)") (auto simp: main_def)
  with assms pos
  have "exit_status (run env cfg d (argv_at positional 0) (argv_at positional 1)) = (trace, 0)"
    by (simp add: main_def)
  then obtain res where "run env cfg d (argv_at positional 0) (argv_at positional 1) = (trace, Some res)"
    by (auto simp: exit_status_def prod_eq_iff split: option.splits)
  then obtain t0 t1 training t2 testing t
    where s: "say (verbose cfg) (Printf Stderr ''- Loading datasets...\<newline>'' []) = (t0, Some ())"
      and l1: "load env (argv_at positional 0) = (t1, Some training)"
      and l2: "load env (argv_at positional 1) = (t2, Some testing)"
      and c: "coordinator env cfg d training testing = (t, Some res)"
      and tr: "trace = t0 @ t1 @ t2 @ t"
    unfolding run_def by (auto dest!: io_seq_Some io_bind_Some)
  from say_eq [OF s] load_Some [OF l1] load_Some [OF l2] pos d c tr
  show ?thesis by auto
qed


subsection \<open>A run in which no system call fails\<close>

lemma create_children_ok:
  "\<forall>c. \<not> fails env c \<Longrightarrow> snd (create_children env i k) = Some ()"
  by (induction k arbitrary: i) (simp_all add: io_seq_def io_bind_def sys_def)

lemma distribute_loop_ok:
  "\<forall>c. \<not> fails env c \<Longrightarrow> \<exists>w. snd (distribute_loop env n i k N c) = Some w"
proof (induction k arbitrary: i N c)
  case 0
  then show ?case by simp
next
  case (Suc k)
  from Suc.IH [OF Suc.prems, of "Suc i" "adjust_N n c N" "c + adjust_N n c N"]
  obtain w where "snd (distribute_loop env n (Suc i) k (adjust_N n c N) (c + adjust_N n c N)) = Some w"
    by blast
  with Suc.prems show ?case
    by (simp add: Let_def io_seq_def io_bind_def sys_def)
qed

lemma wait_loop_ok:
  "\<forall>c. \<not> fails env c \<Longrightarrow> snd (wait_loop env i k) = Some ()"
  by (induction k arbitrary: i) (simp_all add: io_seq_def io_bind_def sys_def)

lemma read_loop_ok:
  "\<forall>c. \<not> fails env c \<Longrightarrow> \<exists>res. snd (read_loop env pipes i k nc tot) = Some res"
proof (induction k arbitrary: i nc tot)
  case 0
  then show ?case by simp
next
  case (Suc k)
  let ?nc = "case pipes i of [] \<Rightarrow> nc | v # _ \<Rightarrow> v"
  from Suc.IH [OF Suc.prems, of "Suc i" ?nc "int_cast (tot + ?nc)"]
  obtain res where "snd (read_loop env pipes (Suc i) k ?nc (int_cast (tot + ?nc))) = Some res"
    by blast
  with Suc.prems show ?case
    by (simp add: Let_def io_seq_def io_bind_def sys_def)
qed

lemma coordinator_ok:
  assumes "\<forall>c. \<not> fails env c"
  shows "\<exists>res. snd (coordinator env cfg d training testing) = Some res"
proof -
  obtain w where w: "snd (distribute_loop env (num_items testing) 0 (nat (num_procs cfg))
                 (initial_N (num_items testing) (num_procs cfg)) 0) = Some w"
    using distribute_loop_ok [OF assms] by blast
  obtain res where r: "snd (read_loop env
                 (\<lambda>i. pipe_after (child_handler env training testing (K cfg) d i (w ! i)) (w ! i))
                 0 (nat (num_procs cfg)) (num_correct_init env) 0) = Some res"
    using read_loop_ok [OF assms] by blast
  show ?thesis
    unfolding coordinator_def
    by (simp add: io_seq_def io_bind_def say_def create_children_ok [OF assms]
          wait_loop_ok [OF assms] w r)
qed

lemma main_ok:
  assumes "getopt_loop defaults [] [] (tl argv) = Some (cfg, positional)"
      and "positional \<noteq> []"
      and "select_metric (dist_metric cfg) = Some d"
      and "load_dataset env (argv_at positional 0) = Some training"
      and "load_dataset env (argv_at positional 1) = Some testing"
      and "\<forall>c. \<not> fails env c"
  shows "snd (main env argv) = 0"
proof -
  obtain res where "snd (coordinator env cfg d training testing) = Some res"
    using coordinator_ok [OF assms(6)] by blast
  with assms(1-5) show ?thesis
    by (simp add: main_def run_def exit_status_def io_seq_def io_bind_def say_def load_def)
qed

lemma read_loop_any_pipes:
  "read_loop env pipes i k nc tot = (t, Some res) \<Longrightarrow>
   \<exists>res'. read_loop env pipes' i k nc' tot' = (t, Some res')"
proof (induction k arbitrary: i nc tot nc' tot' t)
  case 0
  then show ?case by simp
next
  case (Suc k)
  let ?nc = "case pipes i of [] \<Rightarrow> nc | v # _ \<Rightarrow> v"
  let ?nc' = "case pipes' i of [] \<Rightarrow> nc' | v # _ \<Rightarrow> v"
  from Suc.prems obtain t1 t2 t3
    where a: "sys env (Read i) ''Failed reading result from child'' = (t1, Some ())"
      and b: "sys env (CloseRead i) ''Closing parent read pipe'' = (t2, Some ())"
      and r: "read_loop env pipes (Suc i) k ?nc (int_cast (tot + ?nc)) = (t3, Some res)"
      and t: "t = t1 @ t2 @ t3"
    by (auto simp: Let_def dest!: io_seq_Some)
  from Suc.IH [OF r, of ?nc' "int_cast (tot' + ?nc')"] obtain res'
    where "read_loop env pipes' (Suc i) k ?nc' (int_cast (tot' + ?nc')) = (t3, Some res')" by blast
  with a b t show ?case
    by (simp add: Let_def io_seq_ok)
qed

subsection \<open>The two streams of a run that ends with status 0\<close>

lemma coordinator_streams:
  assumes "coordinator env cfg d training testing = (t, Some res)"
  shows "stderr_of t = []
       \<and> inherited [] t =
           (if verbose cfg
            then replicate (nat (num_procs cfg)) (Printf Stdout ''- Creating children ...\<newline>'' [])
            else [])"
proof -
  let ?P = "nat (num_procs cfg)"
  let ?c = "Printf Stdout ''- Creating children ...\<newline>'' []"
  from assms obtain t1 t2 t3 w t4 t5 t6 t7 t8
    where s1: "say (verbose cfg) ?c = (t1, Some ())"
      and cc: "create_children env 0 ?P = (t2, Some ())"
      and dl: "distribute_loop env (num_items testing) 0 ?P
                 (initial_N (num_items testing) (num_procs cfg)) 0 = (t3, Some w)"
      and s2: "say (verbose cfg) (Printf Stdout ''- Waiting for children...\<newline>'' []) = (t4, Some ())"
      and wl: "wait_loop env 0 ?P = (t5, Some ())"
      and rl: "read_loop env
                 (\<lambda>i. pipe_after (child_handler env training testing (K cfg) d i (w ! i)) (w ! i))
                 0 ?P (num_correct_init env) 0 = (t6, Some res)"
      and s3: "say (verbose cfg)
                 (Printf Stdout ''Number of correct predictions: %d\<newline>'' [IntArg res])
               = (t7, Some ())"
      and s4: "say True (Printf Stdout ''%d\<newline>'' [IntArg res]) = (t8, Some ())"
      and t: "t = t1 @ t2 @ t3 @ t4 @ t5 @ t6 @ t7 @ t8"
    unfolding coordinator_def
    by (auto dest!: io_seq_Some io_bind_Some)
  note says = say_eq [OF s1] say_eq [OF s2] say_eq [OF s3] say_eq [OF s4]
  note quiet = create_children_streams [OF cc] distribute_loop_streams [OF dl]
    wait_loop_streams [OF wl] read_loop_streams [OF rl]
  have e: "stderr_of t = []"
    unfolding t using says quiet by (simp add: stderr_of_append) (simp add: stderr_of_def)
  have i1: "inherited [] t1 = []" and o1: "stdout_of t1 = (if verbose cfg then [?c] else [])"
    using says(1) by (simp_all add: stdout_of_def)
  have i7: "inherited b t7 = []" for b
    using says(3) by simp
  have i8: "inherited b t8 = []" for b
    using says(4) by simp
  have i4: "inherited b t4 = []" for b
    using says(2) by simp
  have "inherited [] t = inherited (stdout_of t1) t2"
    unfolding t using i1 i4 i7 i8 quiet by (simp add: inherited_append)
  also have "\<dots> = concat (replicate ?P (stdout_of t1))"
    using quiet(1) by blast
  also have "\<dots> = (if verbose cfg then replicate ?P ?c else [])"
    unfolding o1 by (simp add: concat_replicate_single)
  finally show ?thesis using e by blast
qed

lemma main_streams:
  assumes "getopt_loop defaults [] [] (tl argv) = Some (cfg, positional)"
      and "main env argv = (trace, 0)"
  shows "stderr_of trace =
           (if verbose cfg then [Printf Stderr ''- Loading datasets...\<newline>'' []] else [])
       \<and> inherited [] trace =
           (if verbose cfg
            then replicate (nat (num_procs cfg)) (Printf Stdout ''- Creating children ...\<newline>'' [])
            else [])"
proof -
  from main_status_0 [OF assms] obtain d training testing t res
    where c: "coordinator env cfg d training testing = (t, Some res)"
      and tr: "trace = (if verbose cfg then [Printf Stderr ''- Loading datasets...\<newline>'' []] else [])
               @ [Load (argv_at positional 0), Load (argv_at positional 1)] @ t"
    by blast
  from coordinator_streams [OF c] show ?thesis
    unfolding tr by (simp add: stderr_of_append inherited_append) (simp add: stderr_of_def stdout_of_def)
qed

subsection \<open>Workers that all report\<close>

lemma first_slice_le: "1 \<le> p \<Longrightarrow> snd (partition_slices n p ! 0) \<le> n"
proof -
  assume "1 \<le> p"
  then obtain k where k: "nat p = Suc k" by (cases "nat p") auto
  show ?thesis
    unfolding partition_slices_def k using adjust_N_fits [of 0 n "initial_N n p"]
    by (simp add: Let_def)
qed

lemma reports_in_range:
  assumes "\<forall>i < nat p. 0 \<le> c i \<and> c i \<le> snd (partition_slices n p ! i)"
      and "n < 2 ^ 31"
  shows "(\<Sum>i < nat p. c i) < 2 ^ 31"
proof (cases "1 \<le> p")
  case False
  then show ?thesis by simp
next
  case True
  then have "0 < nat p" by simp
  with assms(1) have "0 \<le> c 0" "c 0 \<le> snd (partition_slices n p ! 0)" by simp_all
  with first_slice_le [OF True, of n] have n: "0 \<le> n" by linarith
  have len: "length (partition_slices n p) = nat p"
    by (simp add: partition_slices_def length_distribute)
  have "(\<Sum>i < nat p. c i) \<le> (\<Sum>i < nat p. snd (partition_slices n p ! i))"
    using assms(1) by (intro sum_mono) simp
  also have "\<dots> = sum_list (map snd (partition_slices n p))"
    by (simp add: sum_list_sum_nth len atLeast0LessThan)
  also have "\<dots> = n" by (rule partition_sum [OF n True])
  finally show ?thesis using assms(2) by linarith
qed

lemma reported_total:
  assumes rl: "read_loop env
        (\<lambda>i. pipe_after (child_handler env training testing k d i (partition_slices n p ! i))
               (partition_slices n p ! i))
        0 (nat p) nc 0 = (tr, Some res)"
      and rep: "\<forall>i < nat p. child_handler env training testing k d i (partition_slices n p ! i) =
                  Reports (c i)"
      and bounds: "\<forall>i < nat p. 0 \<le> c i \<and> c i \<le> snd (partition_slices n p ! i)"
      and n: "n < 2 ^ 31"
  shows "res = (\<Sum>i < nat p. c i)"
proof -
  let ?sl = "partition_slices n p"
  let ?pipes = "\<lambda>i. pipe_after (child_handler env training testing k d i (?sl ! i)) (?sl ! i)"
  have pipes: "\<forall>j. 0 \<le> j \<and> j < 0 + nat p \<longrightarrow> ?pipes j = [c j] \<and> 0 \<le> c j"
  proof (intro allI impI)
    fix j assume "0 \<le> j \<and> j < 0 + nat p"
    then have j: "j < nat p" by simp
    with rep have "child_handler env training testing k d j (?sl ! j) = Reports (c j)" by simp
    then have "?pipes j = [c j]" by (cases "?sl ! j") simp
    with bounds j show "?pipes j = [c j] \<and> 0 \<le> c j" by simp
  qed
  have small: "0 + (\<Sum>j = 0..<0 + nat p. c j) < 2 ^ 31"
    using reports_in_range [OF bounds n] by (simp add: atLeast0LessThan)
  from read_loop_total [OF rl pipes _ small] show ?thesis
    by (simp add: atLeast0LessThan)
qed

lemma permuted_total:
  assumes rl: "read_loop env pipes 0 (nat p) nc 0 = (tr, Some res)"
      and bounds: "\<forall>i < nat p. 0 \<le> c i \<and> c i \<le> snd (partition_slices n p ! i)"
      and n: "n < 2 ^ 31"
      and bij: "bij_betw \<pi> {..<nat p} {..<nat p}"
  shows "read_loop env (\<lambda>i. [c (\<pi> i)]) 0 (nat p) nc 0 = (tr, Some (\<Sum>i < nat p. c i))"
proof -
  from read_loop_any_pipes [OF rl, of "\<lambda>i. [c (\<pi> i)]" nc 0]
  obtain res' where rl': "read_loop env (\<lambda>i. [c (\<pi> i)]) 0 (nat p) nc 0 = (tr, Some res')"
    by blast
  have perm: "(\<Sum>j < nat p. c (\<pi> j)) = (\<Sum>j < nat p. c j)"
    by (rule sum.reindex_bij_betw [OF bij])
  have pipes: "\<forall>j. 0 \<le> j \<and> j < 0 + nat p \<longrightarrow> [c (\<pi> j)] = [(c \<circ> \<pi>) j] \<and> 0 \<le> (c \<circ> \<pi>) j"
  proof (intro allI impI)
    fix j assume "0 \<le> j \<and> j < 0 + nat p"
    then have "j \<in> {..<nat p}" by simp
    with bij have "\<pi> j \<in> {..<nat p}" by (auto simp: bij_betw_def)
    with bounds show "[c (\<pi> j)] = [(c \<circ> \<pi>) j] \<and> 0 \<le> (c \<circ> \<pi>) j" by simp
  qed
  have small: "0 + (\<Sum>j = 0..<0 + nat p. (c \<circ> \<pi>) j) < 2 ^ 31"
    using reports_in_range [OF bounds n] perm by (simp add: atLeast0LessThan)
  from read_loop_total [OF rl' pipes _ small] have "res' = (\<Sum>j < nat p. c (\<pi> j))"
    by (simp add: atLeast0LessThan)
  with perm rl' show ?thesis by simp
qed

section \<open>The claims about the run\<close>

subsection \<open>Helper facts about strings and options\<close>

lemma strncmp_prefix: "strncmp s t (length s) = 0 \<longleftrightarrow> prefix s t"
proof (induction s arbitrary: t)
  case Nil
  then show ?case by simp
next
  case (Cons a s)
  then show ?case by (cases t) auto
qed

lemma select_metric_prefix:
  "select_metric s =
     (if prefix s ''euclidean'' then Some distance_euclidean
      else if prefix s ''cosine'' then Some distance_cosine
      else None)"
  by (simp add: select_metric_def strlen_def strncmp_prefix)








subsection \<open>Workers that do not report\<close>

text \<open>
  Claim C3 fails on the code.  Five test items, two workers; worker 0 reports 3 correct
  predictions, worker 1 terminates without writing a result.  No system call of the
  parent fails: \<^verbatim>\<open>wait\<close> returns for both children and \<^verbatim>\<open>read\<close> does not return a
  negative value.  If worker 1 died before it read its assignment, the parent reads its
  own \<open>start_idx = 3\<close> back from the pipe; if it died after reading both integers, the
  pipe is empty and \<^verbatim>\<open>num_correct\<close> still holds worker 0's 3.  Either way 6 is printed
  for 5 test items and the exit status is 0.  With a single worker that dies after
  reading, the uninitialised \<^verbatim>\<open>num_correct\<close> (here 0) is printed as the total.
\<close>

theorem dead_worker_total_printed:
  "main (example_env 3 5 (\<lambda>i. if i = 0 then Reports 3 else Dies 0))
      [''classify'', ''-p'', ''2'', ''train'', ''test''] =
     ([Load (Some ''train''), Load (Some ''test''),
       Call (Pipe 0), Call (Fork 0), Call (Pipe 1), Call (Fork 1),
       Call (WriteStart 0 0), Call (WriteN 0 3), Call (CloseWrite 0),
       Call (WriteStart 1 3), Call (WriteN 1 2), Call (CloseWrite 1),
       Call (Wait 0), Call (Wait 1),
       Call (Read 0), Call (CloseRead 0), Call (Read 1), Call (CloseRead 1),
       Printf Stdout ''%d\<newline>'' [IntArg 6]], 0)
   \<and> main (example_env 3 5 (\<lambda>i. if i = 0 then Reports 3 else Dies 2))
      [''classify'', ''-p'', ''2'', ''train'', ''test''] =
     ([Load (Some ''train''), Load (Some ''test''),
       Call (Pipe 0), Call (Fork 0), Call (Pipe 1), Call (Fork 1),
       Call (WriteStart 0 0), Call (WriteN 0 3), Call (CloseWrite 0),
       Call (WriteStart 1 3), Call (WriteN 1 2), Call (CloseWrite 1),
       Call (Wait 0), Call (Wait 1),
       Call (Read 0), Call (CloseRead 0), Call (Read 1), Call (CloseRead 1),
       Printf Stdout ''%d\<newline>'' [IntArg 6]], 0)
   \<and> stdout_of (fst (main (example_env 3 5 (\<lambda>i. Dies 2)) [''classify'', ''train'', ''test''])) =
       [Printf Stdout ''%d\<newline>'' [IntArg 0]]
   \<and> snd (main (example_env 3 5 (\<lambda>i. Dies 2)) [''classify'', ''train'', ''test'']) = 0"
  by code_simp

subsection \<open>Selecting the distance function\<close>

text \<open>
  Claim C4 as stated fails for the empty name: it is a prefix of both metric names, and
  \<^verbatim>\<open>strncmp\<close> with length 0 returns 0 for the first comparison, so \<^verbatim>\<open>-d ""\<close>
  selects the euclidean distance and the run goes on to load the data sets.
\<close>

theorem empty_metric_counterexample:
  "prefix [] ''euclidean'' \<and> prefix [] ''cosine''
   \<and> select_metric [] = Some distance_euclidean
   \<and> main (example_env 3 5 (\<lambda>i. Reports 1)) [''classify'', ''-d'', [], ''train'', ''test''] =
       ([Load (Some ''train''), Load (Some ''test''), Call (Pipe 0), Call (Fork 0),
         Call (WriteStart 0 0), Call (WriteN 0 5), Call (CloseWrite 0), Call (Wait 0),
         Call (Read 0), Call (CloseRead 0), Printf Stdout ''%d\<newline>'' [IntArg 1]], 0)"
proof -
  have "main (example_env 3 5 (\<lambda>i. Reports 1)) [''classify'', ''-d'', [], ''train'', ''test''] =
       ([Load (Some ''train''), Load (Some ''test''), Call (Pipe 0), Call (Fork 0),
         Call (WriteStart 0 0), Call (WriteN 0 5), Call (CloseWrite 0), Call (Wait 0),
         Call (Read 0), Call (CloseRead 0), Printf Stdout ''%d\<newline>'' [IntArg 1]], 0)"
    by code_simp
  moreover have "select_metric [] = Some distance_euclidean"
    by code_simp
  ultimately show ?thesis by simp
qed

text \<open>
  Claim C4, amended.  A name that is a prefix of \<^verbatim>\<open>euclidean\<close>, the empty name
  included, selects the euclidean distance; a non-empty prefix of \<^verbatim>\<open>cosine\<close> selects
  the cosine distance; any other name selects nothing.  Whenever the name the command
  line leaves in \<^verbatim>\<open>dist_metric\<close> (that of its last \<^verbatim>\<open>-d\<close>, wherever the option
  stands) selects nothing, \<^verbatim>\<open>main\<close> ends with status 1 after a single message on the
  error stream (the metric message, or the one for missing file arguments, which is
  checked first), before any data set is loaded and before any child is forked.
\<close>

theorem metric_selection:
  "(prefix s ''euclidean'' \<longrightarrow> select_metric s = Some distance_euclidean)
   \<and> (s \<noteq> [] \<and> prefix s ''cosine'' \<longrightarrow> select_metric s = Some distance_cosine)
   \<and> (\<not> prefix s ''euclidean'' \<and> \<not> prefix s ''cosine'' \<longrightarrow> select_metric s = None)
   \<and> getopt_loop cfg0 nonopts [] (''-d'' # s # rest) =
       getopt_loop (cfg0\<lparr>dist_metric := s\<rparr>) nonopts [] rest
   \<and> (getopt_loop defaults [] [] (tl argv) = Some (cfg, positional)
        \<and> select_metric (dist_metric cfg) = None \<longrightarrow>
        snd (main env argv) = 1
        \<and> (fst (main env argv) = [Perror ''Invalid distance metric'']
           \<or> fst (main env argv) =
               [Printf Stderr ''Expecting training images file and test images file\<newline>'' []]))"
proof -
  have "s \<noteq> [] \<and> prefix s ''cosine'' \<longrightarrow> \<not> prefix s ''euclidean''"
    by (cases s) auto
  moreover have "getopt_loop cfg0 nonopts [] (''-d'' # s # rest) =
       getopt_loop (cfg0\<lparr>dist_metric := s\<rparr>) nonopts [] rest"
    by (simp add: switch_opt_def)
  ultimately show ?thesis
    by (auto simp: select_metric_prefix main_def)
qed

theorem metric_selection_witness:
  "prefix ''eucl'' ''euclidean'' \<and> select_metric ''eucl'' = Some distance_euclidean
   \<and> ''cos'' \<noteq> [] \<and> prefix ''cos'' ''cosine'' \<and> select_metric ''cos'' = Some distance_cosine
   \<and> \<not> prefix ''manhattan'' ''euclidean'' \<and> \<not> prefix ''manhattan'' ''cosine''
   \<and> select_metric ''manhattan'' = None
   \<and> main (example_env 3 5 (\<lambda>i. Reports 1)) [''classify'', ''train'', ''-d'', ''manhattan'', ''test''] =
       ([Perror ''Invalid distance metric''], 1)"
proof -
  let ?env = "example_env 3 5 (\<lambda>i. Reports 1)"
  let ?argv = "[''classify'', ''train'', ''-d'', ''manhattan'', ''test'']"
  let ?cfg = "\<lparr>K = 1, dist_metric = ''manhattan'', num_procs = 1, verbose = False\<rparr>"
  have e: "prefix ''eucl'' ''euclidean''" by simp
  have c: "''cos'' \<noteq> [] \<and> prefix ''cos'' ''cosine''" by simp
  have m: "\<not> prefix ''manhattan'' ''euclidean'' \<and> \<not> prefix ''manhattan'' ''cosine''" by simp
  have p: "getopt_loop defaults [] [] (tl ?argv) = Some (?cfg, [''train'', ''test''])"
    by code_simp
  from metric_selection [of "''eucl''"] e
  have 1: "select_metric ''eucl'' = Some distance_euclidean" by blast
  from metric_selection [of "''cos''"] c
  have 2: "select_metric ''cos'' = Some distance_cosine" by blast
  from metric_selection [of "''manhattan''"] m
  have 3: "select_metric ''manhattan'' = None" by blast
  then have "select_metric (dist_metric ?cfg) = None" by simp
  with metric_selection [of _ _ _ _ ?argv ?cfg "[''train'', ''test'']" ?env] p
  have "snd (main ?env ?argv) = 1
        \<and> (fst (main ?env ?argv) = [Perror ''Invalid distance metric'']
           \<or> fst (main ?env ?argv) =
               [Printf Stderr ''Expecting training images file and test images file\<newline>'' []])"
    by blast
  moreover have "fst (main ?env ?argv) \<noteq>
               [Printf Stderr ''Expecting training images file and test images file\<newline>'' []]"
    by code_simp
  ultimately have "main ?env ?argv = ([Perror ''Invalid distance metric''], 1)"
    by (auto simp: prod_eq_iff)
  with e c m 1 2 3 show ?thesis by blast
qed

subsection \<open>What is written to the two streams\<close>

text \<open>
  Claim C5 as stated fails with \<^verbatim>\<open>-v\<close>: three of the four diagnostic messages are
  printed with \<^verbatim>\<open>printf\<close>.  A successful verbose run with one worker puts four lines
  on a terminal and five on a pipe, where the child repeats the first one.
\<close>

theorem verbose_stdout_counterexample:
  "snd (main (example_env 3 5 (\<lambda>i. Reports 1)) [''classify'', ''-v'', ''train'', ''test'']) = 0
   \<and> stdout_stream False (fst (main (example_env 3 5 (\<lambda>i. Reports 1))
                                  [''classify'', ''-v'', ''train'', ''test''])) =
       [Printf Stdout ''- Creating children ...\<newline>'' [],
        Printf Stdout ''- Waiting for children...\<newline>'' [],
        Printf Stdout ''Number of correct predictions: %d\<newline>'' [IntArg 1],
        Printf Stdout ''%d\<newline>'' [IntArg 1]]
   \<and> stdout_stream True (fst (main (example_env 3 5 (\<lambda>i. Reports 1))
                                  [''classify'', ''-v'', ''train'', ''test''])) =
       [Printf Stdout ''- Creating children ...\<newline>'' [],
        Printf Stdout ''- Creating children ...\<newline>'' [],
        Printf Stdout ''- Waiting for children...\<newline>'' [],
        Printf Stdout ''Number of correct predictions: %d\<newline>'' [IntArg 1],
        Printf Stdout ''%d\<newline>'' [IntArg 1]]"
  by code_simp

text \<open>
  Claim C5, amended.  Take a run that ends with status 0 and in which every worker \<open>i\<close>
  reports its count \<open>c i\<close>, between 0 and the size of its slice.  Without \<^verbatim>\<open>-v\<close> the
  standard output carries exactly one item, the sum of the counts followed by a newline,
  and the error stream carries nothing.  With \<^verbatim>\<open>-v\<close> the error stream carries the
  message about loading and nothing else; the standard output carries the messages about
  creating and waiting for the children and the labelled total, then the total, and,
  when it is fully buffered (a pipe or a file), before all of these one more copy of
  the message about creating the children for every worker.
\<close>

theorem stdout_of_successful_run:
  assumes "getopt_loop defaults [] [] (tl argv) = Some (cfg, positional)"
      and "main env argv = (trace, 0)"
      and "load_dataset env (argv_at positional 0) = Some training"
      and "load_dataset env (argv_at positional 1) = Some testing"
      and "select_metric (dist_metric cfg) = Some d"
      and "\<forall>i < nat (num_procs cfg).
             child_handler env training testing (K cfg) d i
               (partition_slices (num_items testing) (num_procs cfg) ! i) = Reports (c i)"
      and "\<forall>i < nat (num_procs cfg).
             0 \<le> c i \<and> c i \<le> snd (partition_slices (num_items testing) (num_procs cfg) ! i)"
      and "num_items testing < 2 ^ 31"
  shows "stdout_stream fully_buffered trace =
           (if verbose cfg
            then (if fully_buffered
                  then replicate (nat (num_procs cfg))
                         (Printf Stdout ''- Creating children ...\<newline>'' [])
                  else [])
                 @ [Printf Stdout ''- Creating children ...\<newline>'' [],
                    Printf Stdout ''- Waiting for children...\<newline>'' [],
                    Printf Stdout ''Number of correct predictions: %d\<newline>''
                      [IntArg (\<Sum>i < nat (num_procs cfg). c i)]]
            else [])
           @ [Printf Stdout ''%d\<newline>'' [IntArg (\<Sum>i < nat (num_procs cfg). c i)]]
       \<and> stderr_of trace =
           (if verbose cfg then [Printf Stderr ''- Loading datasets...\<newline>'' []] else [])"
proof -
  from main_status_0 [OF assms(1,2)] assms(3,4,5) obtain t res
    where co: "coordinator env cfg d training testing = (t, Some res)"
      and tr: "trace = (if verbose cfg then [Printf Stderr ''- Loading datasets...\<newline>'' []] else [])
               @ [Load (argv_at positional 0), Load (argv_at positional 1)] @ t"
    by auto
  from coordinator_Some [OF co] obtain pre tr0
    where t: "t = pre
         @ (if verbose cfg
            then [Printf Stdout ''Number of correct predictions: %d\<newline>'' [IntArg res]]
            else [])
         @ [Printf Stdout ''%d\<newline>'' [IntArg res]]"
      and pre: "stdout_of pre =
       (if verbose cfg
        then [Printf Stdout ''- Creating children ...\<newline>'' [],
              Printf Stdout ''- Waiting for children...\<newline>'' []]
        else [])"
      and rl: "read_loop env
        (\<lambda>i. pipe_after
               (child_handler env training testing (K cfg) d i
                  (partition_slices (num_items testing) (num_procs cfg) ! i))
               (partition_slices (num_items testing) (num_procs cfg) ! i))
        0 (nat (num_procs cfg)) (num_correct_init env) 0 = (tr0, Some res)"
    by blast
  have res: "res = (\<Sum>i < nat (num_procs cfg). c i)"
    by (rule reported_total [OF rl assms(6,7,8)])
  have out: "stdout_of trace = stdout_of pre
         @ (if verbose cfg
            then [Printf Stdout ''Number of correct predictions: %d\<newline>'' [IntArg res]]
            else [])
         @ [Printf Stdout ''%d\<newline>'' [IntArg res]]"
    unfolding tr t by (simp add: stdout_of_append) (simp add: stdout_of_def)
  from main_streams [OF assms(1,2)] out pre res show ?thesis
    by (simp add: stdout_stream_def)
qed

theorem stdout_of_successful_run_witness:
  "snd (main (example_env 3 5 (\<lambda>i. Reports 4)) [''classify'', ''train'', ''test'']) = 0
   \<and> stdout_stream True (fst (main (example_env 3 5 (\<lambda>i. Reports 4))
                                 [''classify'', ''train'', ''test''])) =
       [Printf Stdout ''%d\<newline>'' [IntArg 4]]
   \<and> stderr_of (fst (main (example_env 3 5 (\<lambda>i. Reports 4)) [''classify'', ''train'', ''test''])) = []"
proof -
  let ?env = "example_env 3 5 (\<lambda>i. Reports 4)"
  let ?m = "main ?env [''classify'', ''train'', ''test'']"
  have p: "getopt_loop defaults [] [] (tl [''classify'', ''train'', ''test'']) =
     Some (defaults, [''train'', ''test''])"
    by code_simp
  have s: "snd ?m = 0"
    by code_simp
  then have m: "?m = (fst ?m, 0)"
    by (simp add: prod_eq_iff)
  have l1: "load_dataset ?env (argv_at [''train'', ''test''] 0) = Some \<lparr>num_items = 3\<rparr>"
    by (simp add: example_env_def argv_at_def)
  have l2: "load_dataset ?env (argv_at [''train'', ''test''] 1) = Some \<lparr>num_items = 5\<rparr>"
    by (simp add: example_env_def argv_at_def)
  have d: "select_metric (dist_metric defaults) = Some distance_euclidean"
    by code_simp
  have sl: "partition_slices 5 1 = [(0, 5)]"
    by code_simp
  have r: "\<forall>i < nat (num_procs defaults).
             child_handler ?env \<lparr>num_items = 3\<rparr> \<lparr>num_items = 5\<rparr> (K defaults) distance_euclidean i
               (partition_slices (num_items \<lparr>num_items = 5\<rparr>) (num_procs defaults) ! i) =
             Reports ((\<lambda>i. 4) i)"
    by (simp add: example_env_def)
  have b: "\<forall>i < nat (num_procs defaults).
             0 \<le> (\<lambda>i. 4 :: int) i
             \<and> (\<lambda>i. 4) i \<le> snd (partition_slices (num_items \<lparr>num_items = 5\<rparr>) (num_procs defaults) ! i)"
    by (simp add: defaults_def sl)
  have n: "num_items \<lparr>num_items = 5\<rparr> < 2 ^ 31" by simp
  have v: "\<not> verbose defaults" and np: "nat (num_procs defaults) = 1"
    by (simp_all add: defaults_def)
  from stdout_of_successful_run [OF p m l1 l2 d r b n, of True] v np
  have "stdout_stream True (fst ?m) = [Printf Stdout ''%d\<newline>'' [IntArg 4]]
      \<and> stderr_of (fst ?m) = []"
    by simp
  with s show ?thesis by blast
qed

subsection \<open>The total\<close>

text \<open>
  Claim C6.  On a run that ends with status 0 and in which every worker \<open>i\<close> reports
  its count \<open>c i\<close>, a number between 0 and the size of its slice, the last thing printed
  is the sum of the \<open>c i\<close>; everything printed with the total comes after the
  \<^verbatim>\<open>wait\<close> and the \<^verbatim>\<open>read\<close> for each of the workers, and nothing before mentions a
  total; and reading the workers' results in any other order \<open>\<pi>\<close> gives the same sum.
  The size of the test set is a C \<^verbatim>\<open>int\<close>, so the sum is one as well and the
  additions of the read loop do not wrap.
\<close>

theorem total_is_sum_of_reports:
  assumes "getopt_loop defaults [] [] (tl argv) = Some (cfg, positional)"
      and "main env argv = (trace, 0)"
      and "load_dataset env (argv_at positional 0) = Some training"
      and "load_dataset env (argv_at positional 1) = Some testing"
      and "select_metric (dist_metric cfg) = Some d"
      and "\<forall>i < nat (num_procs cfg).
             child_handler env training testing (K cfg) d i
               (partition_slices (num_items testing) (num_procs cfg) ! i) = Reports (c i)"
      and "\<forall>i < nat (num_procs cfg).
             0 \<le> c i \<and> c i \<le> snd (partition_slices (num_items testing) (num_procs cfg) ! i)"
      and "num_items testing < 2 ^ 31"
      and "bij_betw \<pi> {..<nat (num_procs cfg)} {..<nat (num_procs cfg)}"
  shows "\<exists>pre tr.
       trace = pre
         @ (if verbose cfg
            then [Printf Stdout ''Number of correct predictions: %d\<newline>''
                    [IntArg (\<Sum>i < nat (num_procs cfg). c i)]]
            else [])
         @ [Printf Stdout ''%d\<newline>'' [IntArg (\<Sum>i < nat (num_procs cfg). c i)]]
     \<and> (\<forall>j < nat (num_procs cfg). Call (Wait j) \<in> set pre \<and> Call (Read j) \<in> set pre)
     \<and> stdout_of pre =
         (if verbose cfg
          then [Printf Stdout ''- Creating children ...\<newline>'' [],
                Printf Stdout ''- Waiting for children...\<newline>'' []]
          else [])
     \<and> read_loop env (\<lambda>i. [c (\<pi> i)]) 0 (nat (num_procs cfg)) (num_correct_init env) 0 =
         (tr, Some (\<Sum>i < nat (num_procs cfg). c i))"
proof -
  let ?P = "nat (num_procs cfg)"
  let ?sl = "partition_slices (num_items testing) (num_procs cfg)"
  let ?pipes = "\<lambda>i. pipe_after (child_handler env training testing (K cfg) d i (?sl ! i)) (?sl ! i)"
  from main_status_0 [OF assms(1,2)] assms(3,4,5) obtain t res
    where co: "coordinator env cfg d training testing = (t, Some res)"
      and tr: "trace = (if verbose cfg then [Printf Stderr ''- Loading datasets...\<newline>'' []] else [])
               @ [Load (argv_at positional 0), Load (argv_at positional 1)] @ t"
    by auto
  from coordinator_Some [OF co] obtain pre tr0
    where t: "t = pre
         @ (if verbose cfg
            then [Printf Stdout ''Number of correct predictions: %d\<newline>'' [IntArg res]]
            else [])
         @ [Printf Stdout ''%d\<newline>'' [IntArg res]]"
      and pre: "stdout_of pre =
       (if verbose cfg
        then [Printf Stdout ''- Creating children ...\<newline>'' [],
              Printf Stdout ''- Waiting for children...\<newline>'' []]
        else [])"
      and ev: "\<forall>j < ?P. Call (Wait j) \<in> set pre \<and> Call (Read j) \<in> set pre"
      and rl: "read_loop env ?pipes 0 ?P (num_correct_init env) 0 = (tr0, Some res)"
    by blast
  have res: "res = (\<Sum>i < ?P. c i)"
    by (rule reported_total [OF rl assms(6,7,8)])
  let ?pre = "(if verbose cfg then [Printf Stderr ''- Loading datasets...\<newline>'' []] else [])
               @ [Load (argv_at positional 0), Load (argv_at positional 1)] @ pre"
  have "trace = ?pre
         @ (if verbose cfg
            then [Printf Stdout ''Number of correct predictions: %d\<newline>''
                    [IntArg (\<Sum>i < ?P. c i)]]
            else [])
         @ [Printf Stdout ''%d\<newline>'' [IntArg (\<Sum>i < ?P. c i)]]"
    using tr t res by simp
  moreover have "\<forall>j < ?P. Call (Wait j) \<in> set ?pre \<and> Call (Read j) \<in> set ?pre"
    using ev by simp
  moreover have "stdout_of ?pre =
         (if verbose cfg
          then [Printf Stdout ''- Creating children ...\<newline>'' [],
                Printf Stdout ''- Waiting for children...\<newline>'' []]
          else [])"
    using pre by (simp add: stdout_of_append) (simp add: stdout_of_def)
  moreover have "read_loop env (\<lambda>i. [c (\<pi> i)]) 0 ?P (num_correct_init env) 0 =
         (tr0, Some (\<Sum>i < ?P. c i))"
    by (rule permuted_total [OF rl assms(7,8,9)])
  ultimately show ?thesis by blast
qed

theorem total_is_sum_of_reports_witness:
  "snd (main (example_env 3 5 (\<lambda>i. Reports (if i = 0 then 2 else 1)))
          [''classify'', ''train'', ''test'', ''-p'', ''2'']) = 0
   \<and> last (fst (main (example_env 3 5 (\<lambda>i. Reports (if i = 0 then 2 else 1)))
                  [''classify'', ''train'', ''test'', ''-p'', ''2''])) =
       Printf Stdout ''%d\<newline>'' [IntArg 3]
   \<and> snd (read_loop (example_env 3 5 (\<lambda>i. Reports (if i = 0 then 2 else 1)))
           (\<lambda>i. [if 1 - i = 0 then 2 else 1]) 0 2 0 0) = Some 3"
proof -
  let ?c = "\<lambda>i::nat. if i = 0 then 2 else (1::int)"
  let ?env = "example_env 3 5 (\<lambda>i. Reports (?c i))"
  let ?argv = "[''classify'', ''train'', ''test'', ''-p'', ''2'']"
  let ?cfg = "\<lparr>K = 1, dist_metric = ''euclidean'', num_procs = 2, verbose = False\<rparr>"
  have p: "getopt_loop defaults [] [] (tl ?argv) = Some (?cfg, [''train'', ''test''])"
    by code_simp
  have s: "snd (main ?env ?argv) = 0"
    by code_simp
  then have m: "main ?env ?argv = (fst (main ?env ?argv), 0)"
    by (simp add: prod_eq_iff)
  have l1: "load_dataset ?env (argv_at [''train'', ''test''] 0) = Some \<lparr>num_items = 3\<rparr>"
    by (simp add: example_env_def argv_at_def)
  have l2: "load_dataset ?env (argv_at [''train'', ''test''] 1) = Some \<lparr>num_items = 5\<rparr>"
    by (simp add: example_env_def argv_at_def)
  have d: "select_metric (dist_metric ?cfg) = Some distance_euclidean"
    by code_simp
  have r: "\<forall>i < nat (num_procs ?cfg).
             child_handler ?env \<lparr>num_items = 3\<rparr> \<lparr>num_items = 5\<rparr> (K ?cfg) distance_euclidean i
               (partition_slices (num_items \<lparr>num_items = 5\<rparr>) (num_procs ?cfg) ! i) = Reports (?c i)"
    by (simp add: example_env_def)
  have bd: "\<forall>i < nat (num_procs ?cfg).
             0 \<le> ?c i
             \<and> ?c i \<le> snd (partition_slices (num_items \<lparr>num_items = 5\<rparr>) (num_procs ?cfg) ! i)"
    by (simp add: partition_slices_5_2 less_Suc_eq eval_nat_numeral)
  have n: "num_items \<lparr>num_items = 5\<rparr> < 2 ^ 31" by simp
  have b: "bij_betw (\<lambda>i::nat. 1 - i) {..<nat (num_procs ?cfg)} {..<nat (num_procs ?cfg)}"
    by (rule bij_betw_byWitness [where f' = "\<lambda>i. 1 - i"]) auto
  have sum: "(\<Sum>i < nat (num_procs ?cfg). ?c i) = 3"
    by (simp add: eval_nat_numeral)
  from total_is_sum_of_reports [OF p m l1 l2 d r bd n b] obtain pre tr
    where t: "fst (main ?env ?argv) = pre @ [Printf Stdout ''%d\<newline>'' [IntArg 3]]"
      and rl: "read_loop ?env (\<lambda>i. [?c (1 - i)]) 0 2 (num_correct_init ?env) 0 = (tr, Some 3)"
    unfolding sum by auto
  have i: "num_correct_init ?env = 0"
    by (simp add: example_env_def)
  from t have "last (fst (main ?env ?argv)) = Printf Stdout ''%d\<newline>'' [IntArg 3]"
    by simp
  moreover from rl i have "snd (read_loop ?env (\<lambda>i. [?c (1 - i)]) 0 2 0 0) = Some 3"
    by simp
  ultimately show ?thesis using s by blast
qed

subsection \<open>The value of K\<close>

text \<open>
  Claim C7 as stated fails: \<^verbatim>\<open>main\<close> never compares \<open>K\<close> with the size of the
  training set.  With \<^verbatim>\<open>-K 5\<close> and a training set of 3 items the command line is
  accepted, the worker is forked and given its slice, and when the worker reports its
  count the run ends with status 0 and that count as the total.
\<close>

theorem K_not_validated_counterexample:
  "getopt_loop defaults [] [] (tl [''classify'', ''-K'', ''5'', ''train'', ''test'']) =
     Some (\<lparr>K = 5, dist_metric = ''euclidean'', num_procs = 1, verbose = False\<rparr>,
           [''train'', ''test''])
   \<and> load_dataset (example_env 3 1 (\<lambda>i. Reports 1)) (Some ''train'') = Some \<lparr>num_items = 3\<rparr>
   \<and> main (example_env 3 1 (\<lambda>i. Reports 1)) [''classify'', ''-K'', ''5'', ''train'', ''test''] =
       ([Load (Some ''train''), Load (Some ''test''), Call (Pipe 0), Call (Fork 0),
         Call (WriteStart 0 0), Call (WriteN 0 1), Call (CloseWrite 0), Call (Wait 0),
         Call (Read 0), Call (CloseRead 0), Printf Stdout ''%d\<newline>'' [IntArg 1]], 0)"
  by code_simp

text \<open>
  Claim C7, amended.  The coordinator does not validate \<open>K\<close>: it passes it on to
  \<^verbatim>\<open>child_handler\<close> unchanged and never compares it with the size of the training set.
  For every \<open>K\<close>, also one larger than the training set: when the command line is well
  formed, both data sets load, no system call fails and every worker, run with that
  \<open>K\<close>, reports its count (between 0 and the size of its slice), every worker is forked
  and sent its slice, the sum of the counts is printed and the exit status is 0.
\<close>

theorem K_not_validated:
  assumes "getopt_loop defaults [] [] (tl argv) = Some (cfg, positional)"
      and "positional \<noteq> []"
      and "select_metric (dist_metric cfg) = Some d"
      and "load_dataset env (argv_at positional 0) = Some training"
      and "load_dataset env (argv_at positional 1) = Some testing"
      and "\<forall>c. \<not> fails env c"
      and "\<forall>i < nat (num_procs cfg).
             child_handler env training testing (K cfg) d i
               (partition_slices (num_items testing) (num_procs cfg) ! i) = Reports (c i)"
      and "\<forall>i < nat (num_procs cfg).
             0 \<le> c i \<and> c i \<le> snd (partition_slices (num_items testing) (num_procs cfg) ! i)"
      and "num_items testing < 2 ^ 31"
  shows "snd (main env argv) = 0
     \<and> (\<forall>j < nat (num_procs cfg).
           Call (Fork j) \<in> set (fst (main env argv))
         \<and> Call (WriteStart j (fst (partition_slices (num_items testing) (num_procs cfg) ! j)))
             \<in> set (fst (main env argv))
         \<and> Call (WriteN j (snd (partition_slices (num_items testing) (num_procs cfg) ! j)))
             \<in> set (fst (main env argv)))
     \<and> last (fst (main env argv)) =
         Printf Stdout ''%d\<newline>'' [IntArg (\<Sum>i < nat (num_procs cfg). c i)]"
proof -
  let ?m = "main env argv"
  have s: "snd ?m = 0" by (rule main_ok [OF assms(1-6)])
  then have m: "?m = (fst ?m, 0)" by (simp add: prod_eq_iff)
  from main_status_0 [OF assms(1) m] assms(3,4,5) obtain t res
    where co: "coordinator env cfg d training testing = (t, Some res)"
      and tr: "fst ?m = (if verbose cfg then [Printf Stderr ''- Loading datasets...\<newline>'' []] else [])
               @ [Load (argv_at positional 0), Load (argv_at positional 1)] @ t"
    by auto
  from coordinator_Some [OF co] obtain pre tr0
    where t: "t = pre
         @ (if verbose cfg
            then [Printf Stdout ''Number of correct predictions: %d\<newline>'' [IntArg res]]
            else [])
         @ [Printf Stdout ''%d\<newline>'' [IntArg res]]"
      and ev: "\<forall>j < nat (num_procs cfg).
         Call (Fork j) \<in> set pre
       \<and> Call (WriteStart j (fst (partition_slices (num_items testing) (num_procs cfg) ! j)))
           \<in> set pre
       \<and> Call (WriteN j (snd (partition_slices (num_items testing) (num_procs cfg) ! j)))
           \<in> set pre
       \<and> Call (Wait j) \<in> set pre
       \<and> Call (Read j) \<in> set pre"
      and rl: "read_loop env
        (\<lambda>i. pipe_after
               (child_handler env training testing (K cfg) d i
                  (partition_slices (num_items testing) (num_procs cfg) ! i))
               (partition_slices (num_items testing) (num_procs cfg) ! i))
        0 (nat (num_procs cfg)) (num_correct_init env) 0 = (tr0, Some res)"
    by blast
  have res: "res = (\<Sum>i < nat (num_procs cfg). c i)"
    by (rule reported_total [OF rl assms(7,8,9)])
  have "last (fst ?m) = Printf Stdout ''%d\<newline>'' [IntArg (\<Sum>i < nat (num_procs cfg). c i)]"
    unfolding tr t res by simp
  moreover have "\<forall>j < nat (num_procs cfg).
           Call (Fork j) \<in> set (fst ?m)
         \<and> Call (WriteStart j (fst (partition_slices (num_items testing) (num_procs cfg) ! j)))
             \<in> set (fst ?m)
         \<and> Call (WriteN j (snd (partition_slices (num_items testing) (num_procs cfg) ! j)))
             \<in> set (fst ?m)"
    unfolding tr t using ev by simp
  ultimately show ?thesis using s by blast
qed

theorem K_not_validated_witness:
  "num_items \<lparr>num_items = 3\<rparr> < K \<lparr>K = 5, dist_metric = ''euclidean'', num_procs = 1, verbose = False\<rparr>
   \<and> snd (main (example_env 3 1 (\<lambda>i. Reports 1)) [''classify'', ''train'', ''test'', ''-K'', ''5'']) = 0
   \<and> Call (Fork 0) \<in> set (fst (main (example_env 3 1 (\<lambda>i. Reports 1))
                                    [''classify'', ''train'', ''test'', ''-K'', ''5'']))
   \<and> Call (WriteN 0 1) \<in> set (fst (main (example_env 3 1 (\<lambda>i. Reports 1))
                                    [''classify'', ''train'', ''test'', ''-K'', ''5'']))
   \<and> last (fst (main (example_env 3 1 (\<lambda>i. Reports 1))
                  [''classify'', ''train'', ''test'', ''-K'', ''5''])) =
       Printf Stdout ''%d\<newline>'' [IntArg 1]"
proof -
  let ?env = "example_env 3 1 (\<lambda>i. Reports 1)"
  let ?argv = "[''classify'', ''train'', ''test'', ''-K'', ''5'']"
  let ?cfg = "\<lparr>K = 5, dist_metric = ''euclidean'', num_procs = 1, verbose = False\<rparr>"
  have p: "getopt_loop defaults [] [] (tl ?argv) = Some (?cfg, [''train'', ''test''])"
    by code_simp
  have n: "[''train'', ''test''] \<noteq> []" by simp
  have d: "select_metric (dist_metric ?cfg) = Some distance_euclidean"
    by code_simp
  have l1: "load_dataset ?env (argv_at [''train'', ''test''] 0) = Some \<lparr>num_items = 3\<rparr>"
    by (simp add: example_env_def argv_at_def)
  have l2: "load_dataset ?env (argv_at [''train'', ''test''] 1) = Some \<lparr>num_items = 1\<rparr>"
    by (simp add: example_env_def argv_at_def)
  have f: "\<forall>c. \<not> fails ?env c"
    by (simp add: example_env_def)
  have sl: "partition_slices 1 1 = [(0, 1)]"
    by code_simp
  have r: "\<forall>i < nat (num_procs ?cfg).
             child_handler ?env \<lparr>num_items = 3\<rparr> \<lparr>num_items = 1\<rparr> (K ?cfg) distance_euclidean i
               (partition_slices (num_items \<lparr>num_items = 1\<rparr>) (num_procs ?cfg) ! i) =
             Reports ((\<lambda>i. 1) i)"
    by (simp add: example_env_def)
  have bd: "\<forall>i < nat (num_procs ?cfg).
             0 \<le> (\<lambda>i. 1 :: int) i
             \<and> (\<lambda>i. 1) i \<le> snd (partition_slices (num_items \<lparr>num_items = 1\<rparr>) (num_procs ?cfg) ! i)"
    by (simp add: sl)
  have r31: "num_items \<lparr>num_items = 1\<rparr> < 2 ^ 31" by simp
  have k: "num_items \<lparr>num_items = 3\<rparr> < K ?cfg" by simp
  note th = K_not_validated [OF p n d l1 l2 f r bd r31]
  from th have "snd (main ?env ?argv) = 0" by blast
  moreover from th sl have "Call (Fork 0) \<in> set (fst (main ?env ?argv))
      \<and> Call (WriteN 0 1) \<in> set (fst (main ?env ?argv))"
    by simp
  moreover from th have "last (fst (main ?env ?argv)) = Printf Stdout ''%d\<newline>'' [IntArg 1]"
    by simp
  ultimately show ?thesis using k by simp
qed

subsection \<open>Missing file arguments\<close>

text \<open>
  Claim C8 fails on the code for a command line with one file: \<^verbatim>\<open>optind >= argc\<close>
  only holds when both are missing.  With the one argument \<^verbatim>\<open>train\<close> the check
  passes, the testing file is the null pointer \<^verbatim>\<open>argv[argc]\<close>, and the first event of
  the run is the call of \<^verbatim>\<open>load_dataset\<close> on \<^verbatim>\<open>train\<close>.  With no file at all
  the message is printed and the status is 1.
\<close>

theorem one_file_reaches_loader:
  "main env [''classify'', ''train''] =
     exit_status (run env defaults distance_euclidean (Some ''train'') None)
   \<and> take 1 (fst (main env [''classify'', ''train''])) = [Load (Some ''train'')]
   \<and> main env [''classify''] =
       ([Printf Stderr ''Expecting training images file and test images file\<newline>'' []], 1)"
  by (simp add: main_def defaults_def select_metric_def strlen_def argv_at_def run_def
        io_seq_def io_bind_def say_def load_def exit_status_def split: option.splits)

subsection \<open>Option arguments that are not numbers\<close>





end
